theory Spec2Isabelle
  imports Complex_Main "HOL-Library.Multiset"
begin

section \<open>Data model\<close>

text \<open>
  The scripts read JSON documents. JavaScript numbers are idealised as exact reals
  (\<^typ>\<open>real\<close>), identifiers and tag ranks as natural numbers (an AniList tag rank is
  a relevance percentage between 0 and 100). An optional array that is absent behaves in
  every test of the source (\<^verbatim>\<open>x?.length > 0\<close>, \<^verbatim>\<open>x?.map(..) || []\<close>) like the empty array,
  so it is modelled as the empty list. An optional scalar is an \<^typ>\<open>'a option\<close>. A tag
  without a rank behaves like a tag of rank 0 (\<^verbatim>\<open>map.get(tag) || 0\<close>), and a tag without
  the spoiler mark like one whose mark is false.
\<close>

record tag =
  name :: string
  rank :: nat
  isMediaSpoiler :: bool

record anime =
  anime_id :: nat
  genres :: "string list"
  tags :: "tag list"
  studios :: "nat list"
  staff :: "nat list"
  format :: "string option"
  seasonYear :: "int option"
  relations :: "nat list"
  popularity :: nat

record edge =
  source :: nat
  target :: nat
  weight :: real

record node =
  node_id :: nat
  node_genres :: "string list"
  node_popularity :: nat
  community :: "nat option"

record graph =
  nodes :: "node list"
  edges :: "edge list"

text \<open>
  JavaScript truthiness: an absent value, the empty string and the number 0 are falsy.
\<close>

definition truthyString :: "string option \<Rightarrow> bool" where
  "truthyString s = (case s of None \<Rightarrow> False | Some v \<Rightarrow> v \<noteq> [])"

text \<open>
  \<^verbatim>\<open>new Set(xs)\<close> keeps the first occurrence of every element, in insertion order.
\<close>

definition jsSet :: "'a list \<Rightarrow> 'a list" where
  "jsSet xs = rev (remdups (rev xs))"

section \<open>Metadata similarity (scripts/compute-similarity-metadata.js)\<close>

definition jaccardSimilarity :: "'a list \<Rightarrow> 'a list \<Rightarrow> real" where
  "jaccardSimilarity setA setB =
     (if length setA = 0 \<and> length setB = 0 then 0
      else
        let intersection = filter (\<lambda>item. item \<in> set setB) setA;
            union = jsSet (setA @ setB)
        in real (length intersection) / real (length union))"

text \<open>
  \<^verbatim>\<open>new Map(tags.map(t => [t.name, t.rank]))\<close>: a later entry overwrites an earlier one
  of the same name; the keys keep the order of their first insertion.
  \<^verbatim>\<open>map.get(tag) || 0\<close> is \<open>rankOf\<close>.
\<close>

definition tagMap :: "tag list \<Rightarrow> string \<Rightarrow> nat option" where
  "tagMap ts = map_of (rev (map (\<lambda>t. (name t, rank t)) ts))"

definition tagKeys :: "tag list \<Rightarrow> string list" where
  "tagKeys ts = jsSet (map name ts)"

definition rankOf :: "(string \<Rightarrow> nat option) \<Rightarrow> string \<Rightarrow> nat" where
  "rankOf m t = (case m t of None \<Rightarrow> 0 | Some r \<Rightarrow> r)"

text \<open>The loop over \<^verbatim>\<open>allTags\<close>; the state is \<open>(totalWeight, matchWeight)\<close>.\<close>

fun tagLoop ::
  "(string \<Rightarrow> nat option) \<Rightarrow> (string \<Rightarrow> nat option) \<Rightarrow> string list \<Rightarrow> nat \<times> nat \<Rightarrow> nat \<times> nat"
where
  "tagLoop tagMapA tagMapB [] (totalWeight, matchWeight) = (totalWeight, matchWeight)"
| "tagLoop tagMapA tagMapB (t # rest) (totalWeight, matchWeight) =
     (let rankA = rankOf tagMapA t;
          rankB = rankOf tagMapB t;
          maxRank = max rankA rankB
      in tagLoop tagMapA tagMapB rest
           (totalWeight + maxRank,
            if rankA > 0 \<and> rankB > 0 then matchWeight + min rankA rankB else matchWeight))"

definition tagSimilarity :: "tag list \<Rightarrow> tag list \<Rightarrow> real" where
  "tagSimilarity tagsA tagsB =
     (let tagMapA = tagMap tagsA;
          tagMapB = tagMap tagsB;
          allTags = jsSet (tagKeys tagsA @ tagKeys tagsB);
          (totalWeight, matchWeight) = tagLoop tagMapA tagMapB allTags (0, 0)
      in if totalWeight > 0 then real matchWeight / real totalWeight else 0)"

text \<open>
  \<^verbatim>\<open>computeAnimeSimilarity\<close> threads the two accumulators \<open>(similarity, weights)\<close> through
  seven blocks, in this order. Each block is one function on the accumulator pair.
\<close>

type_synonym acc = "real \<times> real"

definition genreStep :: "anime \<Rightarrow> anime \<Rightarrow> acc \<Rightarrow> acc" where
  "genreStep animeA animeB = (\<lambda>(similarity, weights).
     if length (genres animeA) > 0 \<and> length (genres animeB) > 0 then
       (let genreSim = jaccardSimilarity (genres animeA) (genres animeB)
        in (similarity + genreSim * 3, weights + 3))
     else (similarity, weights))"

definition tagStep :: "anime \<Rightarrow> anime \<Rightarrow> acc \<Rightarrow> acc" where
  "tagStep animeA animeB = (\<lambda>(similarity, weights).
     if length (tags animeA) > 0 \<and> length (tags animeB) > 0 then
       (let tagsA = filter (\<lambda>t. \<not> isMediaSpoiler t) (tags animeA);
            tagsB = filter (\<lambda>t. \<not> isMediaSpoiler t) (tags animeB)
        in if length tagsA > 0 \<and> length tagsB > 0 then
             (let tagSim = tagSimilarity tagsA tagsB
              in (similarity + tagSim * (5 / 2), weights + 5 / 2))
           else (similarity, weights))
     else (similarity, weights))"

definition studioStep :: "anime \<Rightarrow> anime \<Rightarrow> acc \<Rightarrow> acc" where
  "studioStep animeA animeB = (\<lambda>(similarity, weights).
     let studiosA = studios animeA; studiosB = studios animeB
     in if length studiosA > 0 \<and> length studiosB > 0 then
          (let studioSim = jaccardSimilarity studiosA studiosB
           in (similarity + studioSim * (3 / 2), weights + 3 / 2))
        else (similarity, weights))"

definition staffStep :: "anime \<Rightarrow> anime \<Rightarrow> acc \<Rightarrow> acc" where
  "staffStep animeA animeB = (\<lambda>(similarity, weights).
     let staffA = staff animeA; staffB = staff animeB
     in if length staffA > 0 \<and> length staffB > 0 then
          (let staffSim = jaccardSimilarity staffA staffB
           in (similarity + staffSim * 1, weights + 1))
        else (similarity, weights))"

definition formatStep :: "anime \<Rightarrow> anime \<Rightarrow> acc \<Rightarrow> acc" where
  "formatStep animeA animeB = (\<lambda>(similarity, weights).
     if truthyString (format animeA) \<and> truthyString (format animeB)
        \<and> format animeA = format animeB
     then (similarity + 1 / 2, weights + 1 / 2)
     else (similarity, weights))"

definition seasonStep :: "anime \<Rightarrow> anime \<Rightarrow> acc \<Rightarrow> acc" where
  "seasonStep animeA animeB = (\<lambda>(similarity, weights).
     case (seasonYear animeA, seasonYear animeB) of
       (Some yearA, Some yearB) \<Rightarrow>
         if yearA \<noteq> 0 \<and> yearB \<noteq> 0 then
           (let yearDiff = \<bar>yearA - yearB\<bar>
            in if yearDiff \<le> 2 then
                 (let seasonSim = (3 - real_of_int yearDiff) / 3
                  in (similarity + seasonSim * (3 / 10), weights + 3 / 10))
               else (similarity, weights))
         else (similarity, weights)
     | _ \<Rightarrow> (similarity, weights))"

definition relationStep :: "anime \<Rightarrow> anime \<Rightarrow> acc \<Rightarrow> acc" where
  "relationStep animeA animeB = (\<lambda>(similarity, weights).
     let relationsA = relations animeA
     in if anime_id animeB \<in> set relationsA then (similarity + 2, weights + 2)
        else (similarity, weights))"

definition similarityParts :: "anime \<Rightarrow> anime \<Rightarrow> acc" where
  "similarityParts animeA animeB =
     relationStep animeA animeB
      (seasonStep animeA animeB
        (formatStep animeA animeB
          (staffStep animeA animeB
            (studioStep animeA animeB
              (tagStep animeA animeB
                (genreStep animeA animeB (0, 0)))))))"

definition computeAnimeSimilarity :: "anime \<Rightarrow> anime \<Rightarrow> real" where
  "computeAnimeSimilarity animeA animeB =
     (case similarityParts animeA animeB of
        (similarity, weights) \<Rightarrow> if weights > 0 then similarity / weights else 0)"

text \<open>
  \<^verbatim>\<open>computeSimilarities\<close>: the loop over \<open>j > i\<close> for a fixed \<open>i\<close>, then the loop over
  \<open>i\<close>. The source fixes \<^verbatim>\<open>MIN_SIMILARITY = 0.25\<close>; the threshold is a parameter here so
  that runs at two thresholds can be compared.
\<close>

fun pairLoop :: "real \<Rightarrow> anime \<Rightarrow> anime list \<Rightarrow> edge list" where
  "pairLoop minSimilarity animeA [] = []"
| "pairLoop minSimilarity animeA (animeB # rest) =
     (let similarity = computeAnimeSimilarity animeA animeB
      in (if similarity \<ge> minSimilarity
          then [\<lparr>source = anime_id animeA, target = anime_id animeB, weight = similarity\<rparr>]
          else [])
         @ pairLoop minSimilarity animeA rest)"

fun computeSimilaritiesAt :: "real \<Rightarrow> anime list \<Rightarrow> edge list" where
  "computeSimilaritiesAt minSimilarity [] = []"
| "computeSimilaritiesAt minSimilarity (animeA # rest) =
     pairLoop minSimilarity animeA rest @ computeSimilaritiesAt minSimilarity rest"

definition MIN_SIMILARITY :: real where
  "MIN_SIMILARITY = 1 / 4"

definition computeSimilarities :: "anime list \<Rightarrow> edge list" where
  "computeSimilarities animeList = computeSimilaritiesAt MIN_SIMILARITY animeList"

text \<open>
  \<^verbatim>\<open>buildGraph\<close>: one node per item, then only the nodes whose id is the source or the
  target of an edge. (Titles and scores are copied unchanged and are left out.)
\<close>

definition toNode :: "anime \<Rightarrow> node" where
  "toNode a = \<lparr>node_id = anime_id a, node_genres = genres a,
               node_popularity = popularity a, community = None\<rparr>"

definition nodeIds :: "edge list \<Rightarrow> nat list" where
  "nodeIds es = jsSet (concat (map (\<lambda>e. [source e, target e]) es))"

definition buildGraph :: "anime list \<Rightarrow> edge list \<Rightarrow> graph" where
  "buildGraph animeList es =
     (let ns = map toNode animeList;
          connectedNodes = filter (\<lambda>n. node_id n \<in> set (nodeIds es)) ns
      in \<lparr>nodes = connectedNodes, edges = es\<rparr>)"

text \<open>
  The hypothesis of the boundedness and symmetry results: the attribute collections of an
  item are duplicate-free.
\<close>

definition duplicateFree :: "anime \<Rightarrow> bool" where
  "duplicateFree a \<longleftrightarrow>
     distinct (genres a) \<and> distinct (map name (tags a)) \<and> distinct (studios a)
     \<and> distinct (staff a)"

section \<open>Genre communities (scripts/compute-similarity-metadata.js, detectCommunities)\<close>

definition primaryGenres :: "string list" where
  "primaryGenres =
     [''Action'', ''Adventure'', ''Comedy'', ''Drama'', ''Fantasy'',
      ''Horror'', ''Mystery'', ''Psychological'', ''Romance'', ''Sci-Fi'',
      ''Slice of Life'', ''Sports'', ''Supernatural'', ''Thriller'', ''Mecha'']"

text \<open>
  \<^verbatim>\<open>primaryGenres.forEach\<close> fills the map \<^verbatim>\<open>genreToCommunity\<close> while it counts
  \<^verbatim>\<open>communityId\<close> up; the state is the pair of the two. The counter after the loop is the
  default community.
\<close>

fun assignCommunityIds ::
  "string list \<Rightarrow> (string \<rightharpoonup> nat) \<times> nat \<Rightarrow> (string \<rightharpoonup> nat) \<times> nat"
where
  "assignCommunityIds [] (genreMap, communityId) = (genreMap, communityId)"
| "assignCommunityIds (genre # rest) (genreMap, communityId) =
     assignCommunityIds rest (genreMap(genre \<mapsto> communityId), communityId + 1)"

definition genreToCommunity :: "string \<rightharpoonup> nat" where
  "genreToCommunity = fst (assignCommunityIds primaryGenres (Map.empty, 0))"

definition defaultCommunity :: nat where
  "defaultCommunity = snd (assignCommunityIds primaryGenres (Map.empty, 0))"

text \<open>
  The loop \<^verbatim>\<open>for (const genre of node.genres)\<close> with its \<^verbatim>\<open>break\<close>: the community of
  the first genre of the node that the map knows, or nothing (\<^verbatim>\<open>assigned\<close> stays false).
\<close>

fun firstPrimaryGenre :: "(string \<rightharpoonup> nat) \<Rightarrow> string list \<Rightarrow> nat option" where
  "firstPrimaryGenre genreMap [] = None"
| "firstPrimaryGenre genreMap (genre # rest) =
     (case genreMap genre of
        Some c \<Rightarrow> Some c
      | None \<Rightarrow> firstPrimaryGenre genreMap rest)"

definition nodeCommunity :: "string list \<Rightarrow> nat" where
  "nodeCommunity gs =
     (if length gs > 0 then
        (case firstPrimaryGenre genreToCommunity gs of
           Some c \<Rightarrow> c
         | None \<Rightarrow> defaultCommunity)
      else defaultCommunity)"

text \<open>
  \<^verbatim>\<open>detectCommunities\<close> writes the field \<^verbatim>\<open>community\<close> of every node of the graph. (The
  per-community summary it returns is computed from the nodes afterwards and is left out.)
\<close>

definition detectCommunities :: "graph \<Rightarrow> graph" where
  "detectCommunities g =
     g\<lparr>nodes := map (\<lambda>n. n\<lparr>community := Some (nodeCommunity (node_genres n))\<rparr>) (nodes g)\<rparr>"

section \<open>Recommendation graph (buildRecommendationGraph)\<close>

text \<open>
  An item of the recommendation input: its id and its recommendation entries. An entry
  carries the id of the recommended item (\<^verbatim>\<open>edge.node?.mediaRecommendation\<close> with its
  \<^verbatim>\<open>id\<close>; absent is \<open>None\<close>) and an optional rating.
\<close>

record recommendation =
  mediaRecommendation :: "nat option"
  rating :: "int option"

record recAnime =
  rec_id :: nat
  recommendations :: "recommendation list"

text \<open>
  The graph object of the graphology library, created with \<^verbatim>\<open>type: 'undirected'\<close>: the
  node keys in insertion order and the edges as they were added. The operations below
  are the library calls the script makes, with the behaviour the library documents:
  \<^verbatim>\<open>addNode\<close> throws on a key that is already a node, \<^verbatim>\<open>hasEdge\<close> of an undirected graph
  ignores the direction, \<^verbatim>\<open>degree\<close> counts the edges at a node (a self-loop twice), and
  \<^verbatim>\<open>dropNode\<close> removes a node together with its edges.
\<close>

record recGraph =
  g_nodes :: "nat list"
  g_edges :: "edge list"

definition emptyGraph :: recGraph where
  "emptyGraph = \<lparr>g_nodes = [], g_edges = []\<rparr>"

definition hasNode :: "recGraph \<Rightarrow> nat \<Rightarrow> bool" where
  "hasNode g n \<longleftrightarrow> n \<in> set (g_nodes g)"

definition addNode :: "recGraph \<Rightarrow> nat \<Rightarrow> recGraph option" where
  "addNode g n = (if hasNode g n then None else Some (g\<lparr>g_nodes := g_nodes g @ [n]\<rparr>))"

definition joins :: "nat \<Rightarrow> nat \<Rightarrow> edge \<Rightarrow> bool" where
  "joins a b e \<longleftrightarrow> (source e = a \<and> target e = b) \<or> (source e = b \<and> target e = a)"

definition hasEdge :: "recGraph \<Rightarrow> nat \<Rightarrow> nat \<Rightarrow> bool" where
  "hasEdge g a b \<longleftrightarrow> list_ex (joins a b) (g_edges g)"

definition addEdge :: "recGraph \<Rightarrow> nat \<Rightarrow> nat \<Rightarrow> real \<Rightarrow> recGraph" where
  "addEdge g a b w = g\<lparr>g_edges := g_edges g @ [\<lparr>source = a, target = b, weight = w\<rparr>]\<rparr>"

definition getEdgeWeight :: "recGraph \<Rightarrow> nat \<Rightarrow> nat \<Rightarrow> real option" where
  "getEdgeWeight g a b = map_option weight (find (joins a b) (g_edges g))"

definition setEdgeWeight :: "recGraph \<Rightarrow> nat \<Rightarrow> nat \<Rightarrow> real \<Rightarrow> recGraph" where
  "setEdgeWeight g a b w =
     g\<lparr>g_edges := map (\<lambda>e. if joins a b e then e\<lparr>weight := w\<rparr> else e) (g_edges g)\<rparr>"

definition degree :: "recGraph \<Rightarrow> nat \<Rightarrow> nat" where
  "degree g n = length (filter (\<lambda>e. source e = n) (g_edges g))
              + length (filter (\<lambda>e. target e = n) (g_edges g))"

definition dropNode :: "nat \<Rightarrow> recGraph \<Rightarrow> recGraph" where
  "dropNode n g =
     \<lparr>g_nodes = filter (\<lambda>m. m \<noteq> n) (g_nodes g),
      g_edges = filter (\<lambda>e. source e \<noteq> n \<and> target e \<noteq> n) (g_edges g)\<rparr>"

text \<open>The first loop: \<^verbatim>\<open>graph.addNode(anime.id, ...)\<close> for every item.\<close>

fun addAllNodes :: "recAnime list \<Rightarrow> recGraph \<Rightarrow> recGraph option" where
  "addAllNodes [] g = Some g"
| "addAllNodes (a # rest) g =
     (case addNode g (rec_id a) of
        None \<Rightarrow> None
      | Some g' \<Rightarrow> addAllNodes rest g')"

definition MIN_RATING :: int where
  "MIN_RATING = 0"

text \<open>
  The body of the inner \<^verbatim>\<open>forEach\<close> for one recommendation entry of the item with id
  \<open>animeId\<close>; \<open>known\<close> are the keys of \<^verbatim>\<open>animeMap\<close>.
\<close>

definition addRecommendation :: "nat list \<Rightarrow> nat \<Rightarrow> recommendation \<Rightarrow> recGraph \<Rightarrow> recGraph" where
  "addRecommendation known animeId r g =
     (case mediaRecommendation r of
        None \<Rightarrow> g
      | Some recId \<Rightarrow>
          if recId = 0 then g
          else
            let rating = (case rating r of None \<Rightarrow> 0 | Some v \<Rightarrow> v)
            in if rating < MIN_RATING then g
               else if recId \<in> set known \<and> hasNode g animeId \<and> hasNode g recId then
                 (if \<not> hasEdge g animeId recId then
                    (let weight = max 1 (real_of_int rating / 100)
                     in addEdge g animeId recId weight)
                  else
                    (let existingWeight = getEdgeWeight g animeId recId;
                         newWeight = max 1 (real_of_int rating / 100)
                     in case existingWeight of
                          Some w \<Rightarrow> if newWeight > w then setEdgeWeight g animeId recId newWeight
                                    else g
                        | None \<Rightarrow> g))
               else g)"

definition addRecommendations :: "nat list \<Rightarrow> recAnime list \<Rightarrow> recGraph \<Rightarrow> recGraph" where
  "addRecommendations known animeList g =
     fold (\<lambda>a g1. fold (addRecommendation known (rec_id a)) (recommendations a) g1) animeList g"

definition isolatedNodes :: "recGraph \<Rightarrow> nat list" where
  "isolatedNodes g = filter (\<lambda>n. degree g n = 0) (g_nodes g)"

definition buildRecommendationGraph :: "recAnime list \<Rightarrow> recGraph option" where
  "buildRecommendationGraph animeList =
     (case addAllNodes animeList emptyGraph of
        None \<Rightarrow> None
      | Some g0 \<Rightarrow>
          let g1 = addRecommendations (map rec_id animeList) animeList g0
          in Some (fold dropNode (isolatedNodes g1) g1))"

section \<open>Layout serializer (scripts/generate-layout-hierarchical.js, main)\<close>

text \<open>
  The normalisation works on JavaScript numbers that need not be finite: the running
  minimum starts at \<^verbatim>\<open>Infinity\<close>, and a division by a zero range gives \<^verbatim>\<open>NaN\<close> or an
  infinity. A number is a real, \<^verbatim>\<open>NaN\<close> or one of the two infinities (the sign of zero is
  not modelled: a non-zero number divided by zero takes the sign of the numerator).
\<close>

datatype jsnum = Num real | NaN | PosInfinity | NegInfinity

fun jsMin :: "jsnum \<Rightarrow> jsnum \<Rightarrow> jsnum" where
  "jsMin NaN b = NaN"
| "jsMin a NaN = NaN"
| "jsMin NegInfinity b = NegInfinity"
| "jsMin a NegInfinity = NegInfinity"
| "jsMin PosInfinity b = b"
| "jsMin a PosInfinity = a"
| "jsMin (Num a) (Num b) = Num (min a b)"

fun jsMax :: "jsnum \<Rightarrow> jsnum \<Rightarrow> jsnum" where
  "jsMax NaN b = NaN"
| "jsMax a NaN = NaN"
| "jsMax PosInfinity b = PosInfinity"
| "jsMax a PosInfinity = PosInfinity"
| "jsMax NegInfinity b = b"
| "jsMax a NegInfinity = a"
| "jsMax (Num a) (Num b) = Num (max a b)"

fun jsSub :: "jsnum \<Rightarrow> jsnum \<Rightarrow> jsnum" where
  "jsSub NaN b = NaN"
| "jsSub a NaN = NaN"
| "jsSub PosInfinity PosInfinity = NaN"
| "jsSub NegInfinity NegInfinity = NaN"
| "jsSub PosInfinity b = PosInfinity"
| "jsSub NegInfinity b = NegInfinity"
| "jsSub a PosInfinity = NegInfinity"
| "jsSub a NegInfinity = PosInfinity"
| "jsSub (Num a) (Num b) = Num (a - b)"

fun jsDiv :: "jsnum \<Rightarrow> jsnum \<Rightarrow> jsnum" where
  "jsDiv NaN b = NaN"
| "jsDiv a NaN = NaN"
| "jsDiv (Num a) (Num b) =
     (if b \<noteq> 0 then Num (a / b)
      else if a = 0 then NaN
      else if a > 0 then PosInfinity else NegInfinity)"
| "jsDiv (Num a) b = Num 0"
| "jsDiv PosInfinity (Num b) = (if b \<ge> 0 then PosInfinity else NegInfinity)"
| "jsDiv NegInfinity (Num b) = (if b \<ge> 0 then NegInfinity else PosInfinity)"
| "jsDiv a b = NaN"

fun jsMul :: "jsnum \<Rightarrow> jsnum \<Rightarrow> jsnum" where
  "jsMul NaN b = NaN"
| "jsMul a NaN = NaN"
| "jsMul (Num a) (Num b) = Num (a * b)"
| "jsMul (Num a) PosInfinity =
     (if a = 0 then NaN else if a > 0 then PosInfinity else NegInfinity)"
| "jsMul (Num a) NegInfinity =
     (if a = 0 then NaN else if a > 0 then NegInfinity else PosInfinity)"
| "jsMul PosInfinity (Num b) =
     (if b = 0 then NaN else if b > 0 then PosInfinity else NegInfinity)"
| "jsMul NegInfinity (Num b) =
     (if b = 0 then NaN else if b > 0 then NegInfinity else PosInfinity)"
| "jsMul PosInfinity PosInfinity = PosInfinity"
| "jsMul NegInfinity NegInfinity = PosInfinity"
| "jsMul a b = NegInfinity"

text \<open>\<^verbatim>\<open>Math.round\<close> rounds to the nearest integer, a half upwards.\<close>

fun jsRound :: "jsnum \<Rightarrow> jsnum" where
  "jsRound (Num a) = Num (of_int \<lfloor>a + 1 / 2\<rfloor>)"
| "jsRound a = a"

text \<open>
  A node as \<^verbatim>\<open>finalizeLayout\<close> leaves it: every node of the graph has received a finite
  position (the fields \<^verbatim>\<open>x\<close> and \<^verbatim>\<open>y\<close>).
\<close>

record positioned =
  pos_id :: nat
  pos_x :: real
  pos_y :: real

definition minX :: "positioned list \<Rightarrow> jsnum" where
  "minX ns = fold (\<lambda>n m. jsMin m (Num (pos_x n))) ns PosInfinity"

definition maxX :: "positioned list \<Rightarrow> jsnum" where
  "maxX ns = fold (\<lambda>n m. jsMax m (Num (pos_x n))) ns NegInfinity"

definition minY :: "positioned list \<Rightarrow> jsnum" where
  "minY ns = fold (\<lambda>n m. jsMin m (Num (pos_y n))) ns PosInfinity"

definition maxY :: "positioned list \<Rightarrow> jsnum" where
  "maxY ns = fold (\<lambda>n m. jsMax m (Num (pos_y n))) ns NegInfinity"

definition rangeX :: "positioned list \<Rightarrow> jsnum" where
  "rangeX ns = jsSub (maxX ns) (minX ns)"

definition rangeY :: "positioned list \<Rightarrow> jsnum" where
  "rangeY ns = jsSub (maxY ns) (minY ns)"

definition worldScale :: real where
  "worldScale = 20000"

text \<open>The fields \<^verbatim>\<open>x\<close> and \<^verbatim>\<open>y\<close> of the compact record of one node.\<close>

definition outputX :: "positioned list \<Rightarrow> positioned \<Rightarrow> jsnum" where
  "outputX ns n =
     jsRound (jsMul (jsDiv (jsSub (Num (pos_x n)) (minX ns)) (rangeX ns)) (Num worldScale))"

definition outputY :: "positioned list \<Rightarrow> positioned \<Rightarrow> jsnum" where
  "outputY ns n =
     jsRound (jsMul (jsDiv (jsSub (Num (pos_y n)) (minY ns)) (rangeY ns)) (Num worldScale))"

definition outputNodes :: "positioned list \<Rightarrow> (nat \<times> jsnum \<times> jsnum) list" where
  "outputNodes ns = map (\<lambda>n. (pos_id n, outputX ns n, outputY ns n)) ns"

text \<open>A serialized coordinate is acceptable when it is an integer between 0 and the scale.\<close>

definition inWorld :: "jsnum \<Rightarrow> bool" where
  "inWorld c \<longleftrightarrow> (\<exists>k::int. c = Num (of_int k) \<and> 0 \<le> k \<and> of_int k \<le> worldScale)"

section \<open>Label propagation (detectCommunities of the viewer-overlap similarity script)\<close>

text \<open>
  The script keeps two JavaScript maps keyed by node id: \<^verbatim>\<open>adjacency\<close> (the list of
  \<open>(neighbour id, weight)\<close> entries of a node) and \<^verbatim>\<open>communities\<close> (the current label of
  a node). A \<^verbatim>\<open>get\<close> on a missing key gives \<^verbatim>\<open>undefined\<close>, here \<open>None\<close>; a label is
  therefore a \<^typ>\<open>nat option\<close>. Calling \<^verbatim>\<open>push\<close> or reading \<^verbatim>\<open>length\<close> on
  \<^verbatim>\<open>undefined\<close> throws, and the function then returns nothing (\<open>None\<close>).
\<close>

type_synonym adjacency = "nat \<rightharpoonup> (nat \<times> real) list"
type_synonym labels = "nat \<Rightarrow> nat option"

definition initAdjacency :: "nat list \<Rightarrow> adjacency" where
  "initAdjacency ids = fold (\<lambda>n adj. adj(n \<mapsto> [])) ids Map.empty"

definition pushNeighbor :: "adjacency \<Rightarrow> nat \<Rightarrow> nat \<times> real \<Rightarrow> adjacency option" where
  "pushNeighbor adj k entry =
     (case adj k of
        None \<Rightarrow> None
      | Some entries \<Rightarrow> Some (adj(k \<mapsto> entries @ [entry])))"

fun addEdges :: "edge list \<Rightarrow> adjacency \<Rightarrow> adjacency option" where
  "addEdges [] adj = Some adj"
| "addEdges (e # rest) adj =
     (case pushNeighbor adj (source e) (target e, weight e) of
        None \<Rightarrow> None
      | Some adj1 \<Rightarrow>
          (case pushNeighbor adj1 (target e) (source e, weight e) of
             None \<Rightarrow> None
           | Some adj2 \<Rightarrow> addEdges rest adj2))"

definition initCommunities :: "nat list \<Rightarrow> labels" where
  "initCommunities ids = fold (\<lambda>n c. c(n \<mapsto> n)) ids Map.empty"

text \<open>
  \<^verbatim>\<open>communityWeights\<close> is a map that is later iterated in insertion order: an association
  list in which a new key goes to the end and a known key is updated in place.
\<close>

fun addWeight :: "(nat option \<times> real) list \<Rightarrow> nat option \<Rightarrow> real \<Rightarrow> (nat option \<times> real) list" where
  "addWeight [] comm w = [(comm, 0 + w)]"
| "addWeight ((k, currentWeight) # rest) comm w =
     (if k = comm then (k, currentWeight + w) # rest
      else (k, currentWeight) # addWeight rest comm w)"

definition communityWeights :: "labels \<Rightarrow> (nat \<times> real) list \<Rightarrow> (nat option \<times> real) list" where
  "communityWeights communities neighbors =
     fold (\<lambda>(nid, w) cw. addWeight cw (communities nid) w) neighbors []"

text \<open>
  The loop \<^verbatim>\<open>for (const [comm, weight] of communityWeights)\<close> (the weight is \<open>w\<close>); the state is
  \<open>(maxWeight, bestCommunity)\<close>.
\<close>

fun findBest :: "(nat option \<times> real) list \<Rightarrow> real \<times> nat option \<Rightarrow> real \<times> nat option" where
  "findBest [] (maxWeight, bestCommunity) = (maxWeight, bestCommunity)"
| "findBest ((comm, w) # rest) (maxWeight, bestCommunity) =
     (if w > maxWeight then findBest rest (w, comm)
      else findBest rest (maxWeight, bestCommunity))"

text \<open>The body of \<^verbatim>\<open>for (const node of graph.nodes)\<close> for the node with id \<open>n\<close>.\<close>

definition updateNode :: "adjacency \<Rightarrow> nat \<Rightarrow> labels \<times> bool \<Rightarrow> (labels \<times> bool) option" where
  "updateNode adj n = (\<lambda>(communities, changed).
     case adj n of
       None \<Rightarrow> None
     | Some neighbors \<Rightarrow>
         if length neighbors = 0 then Some (communities, changed)
         else
           let cw = communityWeights communities neighbors;
               (maxWeight, bestCommunity) = findBest cw (0, communities n)
           in if bestCommunity \<noteq> communities n
              then Some (communities(n := bestCommunity), True)
              else Some (communities, changed))"

fun sweep :: "adjacency \<Rightarrow> nat list \<Rightarrow> labels \<times> bool \<Rightarrow> (labels \<times> bool) option" where
  "sweep adj [] st = Some st"
| "sweep adj (n # rest) st =
     (case updateNode adj n st of
        None \<Rightarrow> None
      | Some st' \<Rightarrow> sweep adj rest st')"

definition maxIterations :: nat where
  "maxIterations = 10"

text \<open>
  \<^verbatim>\<open>while (changed && iterations < maxIterations)\<close>; the state is
  \<open>(communities, changed, iterations)\<close>.
\<close>

function labelLoop ::
  "adjacency \<Rightarrow> nat list \<Rightarrow> labels \<times> bool \<times> nat \<Rightarrow> (labels \<times> bool \<times> nat) option"
where
  "labelLoop adj ids (communities, changed, iterations) =
     (if changed \<and> iterations < maxIterations then
        (case sweep adj ids (communities, False) of
           None \<Rightarrow> None
         | Some (communities', changed') \<Rightarrow>
             labelLoop adj ids (communities', changed', iterations + 1))
      else Some (communities, changed, iterations))"
  by pat_completeness auto
termination
  by (relation "measure (\<lambda>(adj, ids, communities, changed, iterations).
        maxIterations - iterations)") auto

text \<open>
  The propagation as a whole, from the node ids and the edges of the graph. (The
  renumbering of the final labels and the per-community summary are computed from the
  result and are left out.)
\<close>

definition propagateLabels :: "nat list \<Rightarrow> edge list \<Rightarrow> (labels \<times> bool \<times> nat) option" where
  "propagateLabels ids es =
     (case addEdges es (initAdjacency ids) of
        None \<Rightarrow> None
      | Some adj \<Rightarrow> labelLoop adj ids (initCommunities ids, True, 0))"

text \<open>
  The total weight of the edges from a node to its neighbours that carry the label
  \<open>l\<close>: what the map \<^verbatim>\<open>communityWeights\<close> is meant to hold for \<open>l\<close>.
\<close>

definition labelWeight :: "labels \<Rightarrow> (nat \<times> real) list \<Rightarrow> nat option \<Rightarrow> real" where
  "labelWeight communities neighbors l =
     sum_list (map snd (filter (\<lambda>(nid, w). communities nid = l) neighbors))"

text \<open>
  The entry \<open>(l, m)\<close> is the first of an association list that reaches the largest weight
  \<open>m\<close>: every entry before it is strictly lighter, no entry after it is heavier.
\<close>

definition firstMaximal :: "(nat option \<times> real) list \<Rightarrow> nat option \<Rightarrow> real \<Rightarrow> bool" where
  "firstMaximal kvs l m \<longleftrightarrow>
     (\<exists>pre post. kvs = pre @ (l, m) # post \<and> (\<forall>(k, w)\<in>set pre. w < m)
                 \<and> (\<forall>(k, w)\<in>set post. w \<le> m))"

section \<open>Randomised steps of the layout (scripts/generate-layout-hierarchical.js)\<close>

record layoutNode =
  ln_id :: nat
  clusterId :: nat
  tier :: nat
  ln_x :: real
  ln_y :: real
  hue :: real

text \<open>The constructor of \<^verbatim>\<open>LayoutNode\<close>: position and hue start at 0.\<close>

definition newLayoutNode :: "nat \<Rightarrow> nat \<Rightarrow> nat \<Rightarrow> layoutNode" where
  "newLayoutNode i c t = \<lparr>ln_id = i, clusterId = c, tier = t, ln_x = 0, ln_y = 0, hue = 0\<rparr>"

text \<open>
  The source calls \<^verbatim>\<open>Math.random()\<close>, which takes no argument. The values it returns,
  in the order of the calls, are the sequence \<open>rnd\<close>; a function that draws is given the
  sequence and the number \<open>k\<close> of values already drawn, and returns the new count.

  \<^verbatim>\<open>subdivideNodes\<close>: the child number \<open>i\<close> of a parent (it draws twice), the inner loop
  over \<open>i\<close> for one parent (\<open>left\<close> children are still to be made), then the loop over the
  parents. \<open>t\<close> is \<^verbatim>\<open>this.currentTier\<close> and
  \<open>communitySize c\<close> is the length of \<^verbatim>\<open>this.nodesByCommunity[c] || []\<close>.
\<close>

definition childOf :: "(nat \<Rightarrow> real) \<Rightarrow> nat \<Rightarrow> layoutNode \<Rightarrow> nat \<Rightarrow> nat \<Rightarrow> layoutNode" where
  "childOf rnd t parentNode i k =
     (let nodeId = clusterId parentNode * 1000 + i
      in (newLayoutNode nodeId (clusterId parentNode) t)
           \<lparr>ln_x := ln_x parentNode + (rnd k - 1 / 2) * 50,
            ln_y := ln_y parentNode + (rnd (k + 1) - 1 / 2) * 50,
            hue := hue parentNode\<rparr>)"

fun makeChildren ::
  "(nat \<Rightarrow> real) \<Rightarrow> nat \<Rightarrow> layoutNode \<Rightarrow> nat \<Rightarrow> nat \<Rightarrow> nat \<Rightarrow> layoutNode list \<times> nat"
where
  "makeChildren rnd t parentNode i 0 k = ([], k)"
| "makeChildren rnd t parentNode i (Suc left) k =
     (let child = childOf rnd t parentNode i k;
          (rest, k') = makeChildren rnd t parentNode (i + 1) left (k + 2)
      in (child # rest, k'))"

definition subgroups :: "nat \<Rightarrow> (nat \<Rightarrow> nat) \<Rightarrow> layoutNode \<Rightarrow> nat" where
  "subgroups t communitySize parentNode =
     (let nodesPerCommunity = 2 ^ (t + 1);
          members = communitySize (clusterId parentNode)
      in min nodesPerCommunity ((members + 49) div 50))"

fun subdivideNodes ::
  "(nat \<Rightarrow> real) \<Rightarrow> nat \<Rightarrow> (nat \<Rightarrow> nat) \<Rightarrow> layoutNode list \<Rightarrow> nat \<Rightarrow> layoutNode list \<times> nat"
where
  "subdivideNodes rnd t communitySize [] k = ([], k)"
| "subdivideNodes rnd t communitySize (parentNode # oldNodes) k =
     (let (children, k1) =
            makeChildren rnd t parentNode 0 (subgroups t communitySize parentNode) k;
          (rest, k2) = subdivideNodes rnd t communitySize oldNodes k1
      in (children @ rest, k2))"

text \<open>
  The remainder \<^verbatim>\<open>x % m\<close> of a non-negative \<open>x\<close> and a positive \<open>m\<close>.
\<close>

definition jsRem :: "real \<Rightarrow> real \<Rightarrow> real" where
  "jsRem x m = x - m * of_int \<lfloor>x / m\<rfloor>"

text \<open>
  \<^verbatim>\<open>assignHues\<close>. \<^verbatim>\<open>_.sortBy\<close> is a stable ascending sort and \<^verbatim>\<open>_.shuffle\<close> returns its
  argument in a random order; the order it returns is the parameter \<open>shuffle\<close>.
  \<open>swapMiddle\<close> is the exchange of the second element with the middle one. The
  nodes are objects that the function updates in place: the result lists them, with
  their hues, in the order of \<^verbatim>\<open>shuffled\<close>.
\<close>

definition swapMiddle :: "layoutNode list \<Rightarrow> layoutNode list" where
  "swapMiddle shuffled =
     (if length shuffled > 2 then
        (let mid = length shuffled div 2
         in shuffled[1 := shuffled ! mid, mid := shuffled ! 1])
      else shuffled)"

definition assignHues ::
  "(layoutNode list \<Rightarrow> layoutNode list) \<Rightarrow> (nat \<Rightarrow> nat) \<Rightarrow> layoutNode list \<Rightarrow> layoutNode list"
where
  "assignHues shuffle communitySize ns =
     (let sorted = rev (sort_key (\<lambda>n. communitySize (clusterId n)) ns);
          shuffled = swapMiddle (take 2 sorted @ shuffle (drop 2 sorted))
      in map (\<lambda>(i, n). n\<lparr>hue := jsRem (360 * real i / real (length shuffled)) 360\<rparr>)
           (enumerate 0 shuffled))"

text \<open>What of a layout node does not depend on a position.\<close>

definition unplaced :: "layoutNode \<Rightarrow> nat \<times> nat \<times> nat \<times> real" where
  "unplaced n = (ln_id n, clusterId n, tier n, hue n)"

section \<open>Sample inputs\<close>

definition emptyItem :: "nat \<Rightarrow> anime" where
  "emptyItem i = \<lparr>anime_id = i, genres = [], tags = [], studios = [], staff = [],
                  format = None, seasonYear = None, relations = [], popularity = 0\<rparr>"

definition relA :: anime where
  "relA = (emptyItem 1)\<lparr>relations := [2]\<rparr>"

definition relB :: anime where
  "relB = emptyItem 2"

definition dupA :: anime where
  "dupA = (emptyItem 1)\<lparr>genres := [''Action'', ''Action'']\<rparr>"

definition dupB :: anime where
  "dupB = (emptyItem 2)\<lparr>genres := [''Action'']\<rparr>"

definition farA :: anime where
  "farA = (emptyItem 1)\<lparr>genres := [''Action''], seasonYear := Some 2020\<rparr>"

definition farB :: anime where
  "farB = (emptyItem 2)\<lparr>genres := [''Action''], seasonYear := Some 2010\<rparr>"

definition symA :: anime where
  "symA = \<lparr>anime_id = 1, genres = [''Action'', ''Drama''],
           tags = [\<lparr>name = ''Revenge'', rank = 80, isMediaSpoiler = False\<rparr>,
                   \<lparr>name = ''Time Skip'', rank = 60, isMediaSpoiler = True\<rparr>],
           studios = [11, 12], staff = [101, 102],
           format = Some ''TV'', seasonYear = Some 2020, relations = [2], popularity = 500\<rparr>"

definition symB :: anime where
  "symB = \<lparr>anime_id = 2, genres = [''Drama'', ''Mystery''],
           tags = [\<lparr>name = ''Revenge'', rank = 40, isMediaSpoiler = False\<rparr>,
                   \<lparr>name = ''Detective'', rank = 70, isMediaSpoiler = False\<rparr>],
           studios = [12], staff = [102, 103],
           format = Some ''TV'', seasonYear = Some 2021, relations = [1], popularity = 300\<rparr>"

definition symC :: anime where
  "symC = (emptyItem 3)\<lparr>genres := [''Drama'', ''Romance''],
           tags := [\<lparr>name = ''Love Triangle'', rank = 90, isMediaSpoiler = True\<rparr>]\<rparr>"

definition recItems :: "recAnime list" where
  "recItems =
     [\<lparr>rec_id = 1, recommendations =
         [\<lparr>mediaRecommendation = Some 2, rating = Some 250\<rparr>,
          \<lparr>mediaRecommendation = Some 9, rating = Some 10\<rparr>]\<rparr>,
      \<lparr>rec_id = 2, recommendations =
         [\<lparr>mediaRecommendation = Some 1, rating = Some 40\<rparr>,
          \<lparr>mediaRecommendation = Some 3, rating = Some (- 5)\<rparr>]\<rparr>,
      \<lparr>rec_id = 3, recommendations = []\<rparr>]"

definition collapsed :: "positioned list" where
  "collapsed = [\<lparr>pos_id = 1, pos_x = 5, pos_y = 7\<rparr>, \<lparr>pos_id = 2, pos_x = 5, pos_y = 9\<rparr>]"

definition single :: "positioned list" where
  "single = [\<lparr>pos_id = 1, pos_x = 5, pos_y = 7\<rparr>]"

definition spread :: "positioned list" where
  "spread = [\<lparr>pos_id = 1, pos_x = - 30, pos_y = 7\<rparr>, \<lparr>pos_id = 2, pos_x = 10, pos_y = 9\<rparr>,
             \<lparr>pos_id = 3, pos_x = 0, pos_y = 8\<rparr>]"

definition chainIds :: "nat list" where
  "chainIds = [1, 2, 3]"

definition chainEdges :: "edge list" where
  "chainEdges = [\<lparr>source = 2, target = 3, weight = 1 / 2\<rparr>,
                 \<lparr>source = 1, target = 2, weight = 1 / 2\<rparr>]"

definition chainAdjacency :: adjacency where
  "chainAdjacency = [1 \<mapsto> [(2, 1 / 2)], 2 \<mapsto> [(3, 1 / 2), (1, 1 / 2)], 3 \<mapsto> [(2, 1 / 2)]]"

definition chainLabels :: labels where
  "chainLabels = [1 \<mapsto> 2, 2 \<mapsto> 2, 3 \<mapsto> 3]"

definition parent7 :: layoutNode where
  "parent7 = \<lparr>ln_id = 7, clusterId = 7, tier = 0, ln_x = 100, ln_y = - 40, hue = 120\<rparr>"

definition sizes7 :: "nat \<Rightarrow> nat" where
  "sizes7 c = (if c = 7 then 120 else 0)"

definition fiveNodes :: "layoutNode list" where
  "fiveNodes = map (\<lambda>c. newLayoutNode c c 0) [0, 1, 2, 3, 4]"

definition fiveSizes :: "nat \<Rightarrow> nat" where
  "fiveSizes c = 50 - 10 * c"

section \<open>Properties of the similarity factors\<close>

lemmas step_defs = similarityParts_def genreStep_def tagStep_def studioStep_def staffStep_def
  formatStep_def seasonStep_def relationStep_def truthyString_def
  jaccardSimilarity_def jsSet_def tagSimilarity_def tagMap_def tagKeys_def rankOf_def

lemmas sample_defs = emptyItem_def relA_def relB_def dupA_def dupB_def farA_def farB_def
  symA_def symB_def symC_def

subsection \<open>Sets and Jaccard similarity\<close>

lemma set_jsSet [simp]: "set (jsSet xs) = set xs"
  by (simp add: jsSet_def)

lemma distinct_jsSet [simp]: "distinct (jsSet xs)"
  by (simp add: jsSet_def)

lemma length_jsSet: "length (jsSet xs) = card (set xs)"
  using distinct_card [of "jsSet xs"] by simp

lemma length_inter_filter:
  "distinct xs \<Longrightarrow> length (filter (\<lambda>i. i \<in> set ys) xs) = card (set xs \<inter> set ys)"
  by (simp add: distinct_length_filter Int_commute)

lemma jaccardSimilarity_nonneg: "0 \<le> jaccardSimilarity xs ys"
  by (simp add: jaccardSimilarity_def Let_def)

lemma jaccardSimilarity_le_1:
  assumes "distinct xs"
  shows "jaccardSimilarity xs ys \<le> 1"
proof (cases "xs = [] \<and> ys = []")
  case True
  then show ?thesis by (simp add: jaccardSimilarity_def)
next
  case False
  have "card (set xs \<inter> set ys) \<le> card (set xs \<union> set ys)"
    by (rule card_mono) auto
  moreover have "0 < card (set xs \<union> set ys)"
    using False by (auto simp: card_gt_0_iff)
  ultimately show ?thesis
    using False assms
    by (simp add: jaccardSimilarity_def Let_def length_jsSet length_inter_filter)
qed

lemma jaccardSimilarity_commute:
  assumes "distinct xs" "distinct ys"
  shows "jaccardSimilarity xs ys = jaccardSimilarity ys xs"
  using assms
  by (auto simp: jaccardSimilarity_def Let_def length_jsSet length_inter_filter
      Int_commute Un_commute)

subsection \<open>Rank-weighted tag overlap\<close>

lemma tagLoop_sums:
  "tagLoop mA mB ts (tot, mat) =
     (tot + sum_list (map (\<lambda>t. max (rankOf mA t) (rankOf mB t)) ts),
      mat + sum_list (map (\<lambda>t. if rankOf mA t > 0 \<and> rankOf mB t > 0
                                  then min (rankOf mA t) (rankOf mB t) else 0) ts))"
  by (induction ts arbitrary: tot mat) (simp_all add: Let_def)

lemma tagLoop_match_le:
  "tagLoop mA mB ts (0, 0) = (tot, mat) \<Longrightarrow> mat \<le> tot"
  unfolding tagLoop_sums
  by (auto intro!: sum_list_mono)

lemma tagSimilarity_nonneg: "0 \<le> tagSimilarity xs ys"
  by (simp add: tagSimilarity_def Let_def split: prod.splits)

lemma tagSimilarity_le_1: "tagSimilarity xs ys \<le> 1"
  by (auto simp: tagSimilarity_def Let_def split: prod.splits dest: tagLoop_match_le)

lemma tagLoop_commute:
  assumes "distinct ts" "distinct us" "set ts = set us"
  shows "tagLoop mA mB ts (0, 0) = tagLoop mB mA us (0, 0)"
proof -
  let ?f = "\<lambda>t. max (rankOf mA t) (rankOf mB t)"
  let ?g = "\<lambda>t. if rankOf mA t > 0 \<and> rankOf mB t > 0
                  then min (rankOf mA t) (rankOf mB t) else 0"
  have "sum_list (map ?f ts) = sum_list (map ?f us)"
    using assms by (simp add: sum_list_distinct_conv_sum_set)
  moreover have "sum_list (map ?g ts) = sum_list (map ?g us)"
    using assms by (simp add: sum_list_distinct_conv_sum_set)
  moreover have "?f = (\<lambda>t. max (rankOf mB t) (rankOf mA t))"
    by (simp add: max.commute)
  moreover have "?g = (\<lambda>t. if rankOf mB t > 0 \<and> rankOf mA t > 0
                  then min (rankOf mB t) (rankOf mA t) else 0)"
    by (auto simp: min.commute)
  ultimately show ?thesis
    unfolding tagLoop_sums by simp
qed

lemma tagSimilarity_commute: "tagSimilarity xs ys = tagSimilarity ys xs"
proof -
  have "tagLoop (tagMap xs) (tagMap ys) (jsSet (tagKeys xs @ tagKeys ys)) (0, 0)
      = tagLoop (tagMap ys) (tagMap xs) (jsSet (tagKeys ys @ tagKeys xs)) (0, 0)"
    by (rule tagLoop_commute) auto
  then show ?thesis by (simp add: tagSimilarity_def Let_def)
qed

subsection \<open>Every block keeps the numerator between 0 and the denominator\<close>

lemma genreStep_bounded:
  "distinct (genres a) \<Longrightarrow> 0 \<le> s \<Longrightarrow> s \<le> w \<Longrightarrow>
   genreStep a b (s, w) = (s', w') \<Longrightarrow> 0 \<le> s' \<and> s' \<le> w'"
  using jaccardSimilarity_le_1 [of "genres a" "genres b"]
        jaccardSimilarity_nonneg [of "genres a" "genres b"]
  by (auto simp: genreStep_def Let_def split: if_splits)

lemma tagStep_bounded:
  "0 \<le> s \<Longrightarrow> s \<le> w \<Longrightarrow> tagStep a b (s, w) = (s', w') \<Longrightarrow> 0 \<le> s' \<and> s' \<le> w'"
  using tagSimilarity_le_1 [of "filter (\<lambda>t. \<not> isMediaSpoiler t) (tags a)"
                               "filter (\<lambda>t. \<not> isMediaSpoiler t) (tags b)"]
        tagSimilarity_nonneg [of "filter (\<lambda>t. \<not> isMediaSpoiler t) (tags a)"
                               "filter (\<lambda>t. \<not> isMediaSpoiler t) (tags b)"]
  by (auto simp: tagStep_def Let_def split: if_splits)

lemma studioStep_bounded:
  "distinct (studios a) \<Longrightarrow> 0 \<le> s \<Longrightarrow> s \<le> w \<Longrightarrow>
   studioStep a b (s, w) = (s', w') \<Longrightarrow> 0 \<le> s' \<and> s' \<le> w'"
  using jaccardSimilarity_le_1 [of "studios a" "studios b"]
        jaccardSimilarity_nonneg [of "studios a" "studios b"]
  by (auto simp: studioStep_def Let_def split: if_splits)

lemma staffStep_bounded:
  "distinct (staff a) \<Longrightarrow> 0 \<le> s \<Longrightarrow> s \<le> w \<Longrightarrow>
   staffStep a b (s, w) = (s', w') \<Longrightarrow> 0 \<le> s' \<and> s' \<le> w'"
  using jaccardSimilarity_le_1 [of "staff a" "staff b"]
        jaccardSimilarity_nonneg [of "staff a" "staff b"]
  by (auto simp: staffStep_def Let_def split: if_splits)

lemma formatStep_bounded:
  "0 \<le> s \<Longrightarrow> s \<le> w \<Longrightarrow> formatStep a b (s, w) = (s', w') \<Longrightarrow> 0 \<le> s' \<and> s' \<le> w'"
  by (auto simp: formatStep_def split: if_splits)

lemma seasonStep_result:
  assumes "seasonStep a b (s, w) = (s', w')"
  shows "(s' = s \<and> w' = w) \<or>
         (\<exists>d::int. 0 \<le> d \<and> d \<le> 2 \<and> s' = s + (3 - real_of_int d) / 3 * (3 / 10)
                    \<and> w' = w + 3 / 10)"
proof (cases "seasonYear a")
  case None
  then show ?thesis using assms by (simp add: seasonStep_def)
next
  case ya: (Some ya)
  show ?thesis
  proof (cases "seasonYear b")
    case None
    then show ?thesis using assms ya by (simp add: seasonStep_def)
  next
    case yb: (Some yb)
    show ?thesis
    proof (cases "ya \<noteq> 0 \<and> yb \<noteq> 0 \<and> \<bar>ya - yb\<bar> \<le> 2")
      case True
      then have "s' = s + (3 - real_of_int \<bar>ya - yb\<bar>) / 3 * (3 / 10) \<and> w' = w + 3 / 10"
        using assms ya yb by (simp add: seasonStep_def Let_def)
      moreover have "0 \<le> \<bar>ya - yb\<bar>" by simp
      ultimately show ?thesis using True by blast
    next
      case False
      then have "s' = s \<and> w' = w"
        using assms ya yb by (auto simp: seasonStep_def Let_def split: if_splits)
      then show ?thesis by simp
    qed
  qed
qed

lemma seasonStep_bounded:
  assumes "0 \<le> s" "s \<le> w" "seasonStep a b (s, w) = (s', w')"
  shows "0 \<le> s' \<and> s' \<le> w'"
  using seasonStep_result [OF assms(3)]
proof (elim disjE exE conjE)
  assume "s' = s" "w' = w"
  then show ?thesis using assms(1,2) by simp
next
  fix d :: int
  assume d: "0 \<le> d" "d \<le> 2"
    and eq: "s' = s + (3 - real_of_int d) / 3 * (3 / 10)" "w' = w + 3 / 10"
  have "0 \<le> (3 - real_of_int d) / 3 * (3 / 10)" "(3 - real_of_int d) / 3 * (3 / 10) \<le> 3 / 10"
    using d by simp_all
  then show ?thesis using assms(1,2) unfolding eq by linarith
qed

lemma relationStep_bounded:
  "0 \<le> s \<Longrightarrow> s \<le> w \<Longrightarrow> relationStep a b (s, w) = (s', w') \<Longrightarrow> 0 \<le> s' \<and> s' \<le> w'"
  by (auto simp: relationStep_def Let_def split: if_splits)

lemma similarityParts_bounded:
  assumes "distinct (genres a)" "distinct (studios a)" "distinct (staff a)"
    and "similarityParts a b = (s, w)"
  shows "0 \<le> s \<and> s \<le> w"
proof -
  obtain s1 w1 where 1: "genreStep a b (0, 0) = (s1, w1)" by force
  obtain s2 w2 where 2: "tagStep a b (s1, w1) = (s2, w2)" by force
  obtain s3 w3 where 3: "studioStep a b (s2, w2) = (s3, w3)" by force
  obtain s4 w4 where 4: "staffStep a b (s3, w3) = (s4, w4)" by force
  obtain s5 w5 where 5: "formatStep a b (s4, w4) = (s5, w5)" by force
  obtain s6 w6 where 6: "seasonStep a b (s5, w5) = (s6, w6)" by force
  have 7: "relationStep a b (s6, w6) = (s, w)"
    using assms(4) 1 2 3 4 5 6 by (simp add: similarityParts_def)
  have b1: "0 \<le> s1 \<and> s1 \<le> w1" using genreStep_bounded [OF assms(1) _ _ 1] by simp
  have b2: "0 \<le> s2 \<and> s2 \<le> w2" using tagStep_bounded [OF _ _ 2] b1 by simp
  have b3: "0 \<le> s3 \<and> s3 \<le> w3" using studioStep_bounded [OF assms(2) _ _ 3] b2 by simp
  have b4: "0 \<le> s4 \<and> s4 \<le> w4" using staffStep_bounded [OF assms(3) _ _ 4] b3 by simp
  have b5: "0 \<le> s5 \<and> s5 \<le> w5" using formatStep_bounded [OF _ _ 5] b4 by simp
  have b6: "0 \<le> s6 \<and> s6 \<le> w6" using seasonStep_bounded [OF _ _ 6] b5 by simp
  show ?thesis using relationStep_bounded [OF _ _ 7] b6 by simp
qed

lemma computeAnimeSimilarity_le_1:
  assumes "distinct (genres a)" "distinct (studios a)" "distinct (staff a)"
  shows "computeAnimeSimilarity a b \<le> 1"
proof -
  obtain s w where sw: "similarityParts a b = (s, w)" by force
  from similarityParts_bounded [OF assms sw] show ?thesis
    by (simp add: computeAnimeSimilarity_def sw)
qed

lemma pairLoop_weight:
  "e \<in> set (pairLoop t a bs) \<Longrightarrow> \<exists>b\<in>set bs. weight e = computeAnimeSimilarity a b"
  by (induction bs) (auto simp: Let_def split: if_splits)

lemma computeSimilaritiesAt_weight:
  "e \<in> set (computeSimilaritiesAt t xs) \<Longrightarrow>
   \<exists>a\<in>set xs. \<exists>b\<in>set xs. weight e = computeAnimeSimilarity a b"
proof (induction xs)
  case Nil
  then show ?case by simp
next
  case (Cons a xs)
  then show ?case
    using pairLoop_weight [of e t a xs] by auto
qed

subsection \<open>Which blocks are symmetric\<close>

lemma genreStep_commute:
  "distinct (genres a) \<Longrightarrow> distinct (genres b) \<Longrightarrow> genreStep a b = genreStep b a"
  by (auto simp: genreStep_def Let_def fun_eq_iff jaccardSimilarity_commute)

lemma tagStep_commute: "tagStep a b = tagStep b a"
  by (auto simp: tagStep_def Let_def fun_eq_iff tagSimilarity_commute)

lemma studioStep_commute:
  "distinct (studios a) \<Longrightarrow> distinct (studios b) \<Longrightarrow> studioStep a b = studioStep b a"
  by (auto simp: studioStep_def Let_def fun_eq_iff jaccardSimilarity_commute)

lemma staffStep_commute:
  "distinct (staff a) \<Longrightarrow> distinct (staff b) \<Longrightarrow> staffStep a b = staffStep b a"
  by (auto simp: staffStep_def Let_def fun_eq_iff jaccardSimilarity_commute)

lemma formatStep_commute: "formatStep a b = formatStep b a"
  by (auto simp: formatStep_def fun_eq_iff)

lemma seasonStep_commute: "seasonStep a b = seasonStep b a"
  by (auto simp: seasonStep_def Let_def fun_eq_iff abs_minus_commute split: option.splits)

lemma relationStep_commute:
  "(anime_id b \<in> set (relations a)) = (anime_id a \<in> set (relations b)) \<Longrightarrow>
   relationStep a b = relationStep b a"
  by (auto simp: relationStep_def Let_def fun_eq_iff)

subsection \<open>Blocks that do not read a field\<close>

lemma steps_ignore_seasonYear:
  "genreStep (a\<lparr>seasonYear := y\<rparr>) b = genreStep a b"
  "tagStep (a\<lparr>seasonYear := y\<rparr>) b = tagStep a b"
  "studioStep (a\<lparr>seasonYear := y\<rparr>) b = studioStep a b"
  "staffStep (a\<lparr>seasonYear := y\<rparr>) b = staffStep a b"
  "formatStep (a\<lparr>seasonYear := y\<rparr>) b = formatStep a b"
  "relationStep (a\<lparr>seasonYear := y\<rparr>) b = relationStep a b"
  by (simp_all add: genreStep_def tagStep_def studioStep_def staffStep_def formatStep_def
      relationStep_def Let_def fun_eq_iff)

lemma seasonStep_absent: "seasonStep (a\<lparr>seasonYear := None\<rparr>) b = (\<lambda>p. p)"
  by (simp add: seasonStep_def fun_eq_iff)

lemma steps_ignore_tags:
  "genreStep (a\<lparr>tags := ts\<rparr>) b = genreStep a b"
  "genreStep a (b\<lparr>tags := ts\<rparr>) = genreStep a b"
  "studioStep (a\<lparr>tags := ts\<rparr>) b = studioStep a b"
  "studioStep a (b\<lparr>tags := ts\<rparr>) = studioStep a b"
  "staffStep (a\<lparr>tags := ts\<rparr>) b = staffStep a b"
  "staffStep a (b\<lparr>tags := ts\<rparr>) = staffStep a b"
  "formatStep (a\<lparr>tags := ts\<rparr>) b = formatStep a b"
  "formatStep a (b\<lparr>tags := ts\<rparr>) = formatStep a b"
  "seasonStep (a\<lparr>tags := ts\<rparr>) b = seasonStep a b"
  "seasonStep a (b\<lparr>tags := ts\<rparr>) = seasonStep a b"
  "relationStep (a\<lparr>tags := ts\<rparr>) b = relationStep a b"
  "relationStep a (b\<lparr>tags := ts\<rparr>) = relationStep a b"
  by (simp_all add: genreStep_def studioStep_def staffStep_def formatStep_def
      seasonStep_def relationStep_def Let_def fun_eq_iff)

lemma tagStep_visible:
  "tagStep a b (s, w) =
     (let tagsA = filter (\<lambda>t. \<not> isMediaSpoiler t) (tags a);
          tagsB = filter (\<lambda>t. \<not> isMediaSpoiler t) (tags b)
      in if tagsA \<noteq> [] \<and> tagsB \<noteq> []
         then (s + tagSimilarity tagsA tagsB * (5 / 2), w + 5 / 2) else (s, w))"
  by (auto simp: tagStep_def Let_def)

lemma tagStep_strip:
  "tagStep (a\<lparr>tags := filter (\<lambda>t. \<not> isMediaSpoiler t) (tags a)\<rparr>)
           (b\<lparr>tags := filter (\<lambda>t. \<not> isMediaSpoiler t) (tags b)\<rparr>) = tagStep a b"
  by (auto simp: tagStep_visible Let_def fun_eq_iff)

lemma filter_all_spoilers:
  "(\<forall>t\<in>set ts. isMediaSpoiler t) \<Longrightarrow> filter (\<lambda>t. \<not> isMediaSpoiler t) ts = []"
  by (induction ts) auto

lemma tagStep_all_spoilers:
  "(\<forall>t\<in>set (tags a). isMediaSpoiler t) \<or> (\<forall>t\<in>set (tags b). isMediaSpoiler t) \<Longrightarrow>
   tagStep a b p = p"
  by (cases p) (auto simp: tagStep_visible Let_def filter_all_spoilers)

lemma tagStep_no_tags: "tagStep (a\<lparr>tags := []\<rparr>) b p = p" "tagStep a (b\<lparr>tags := []\<rparr>) p = p"
  by (cases p; simp add: tagStep_def)+

subsection \<open>The edge list at two thresholds\<close>

lemma pairLoop_filter:
  "t1 \<le> t2 \<Longrightarrow>
   pairLoop t2 a bs = filter (\<lambda>e. weight e \<ge> t2) (pairLoop t1 a bs)"
  by (induction bs) (auto simp: Let_def)

lemma computeSimilaritiesAt_filter:
  "t1 \<le> t2 \<Longrightarrow>
   computeSimilaritiesAt t2 xs = filter (\<lambda>e. weight e \<ge> t2) (computeSimilaritiesAt t1 xs)"
  by (induction xs) (simp_all add: pairLoop_filter)

subsection \<open>The genre table\<close>

lemma assignCommunityIds_snd:
  "snd (assignCommunityIds gs (m, k)) = k + length gs"
  by (induction gs arbitrary: m k) simp_all

lemma ex_nth_Cons:
  "(\<exists>i<length (x # xs). (x # xs) ! i = g \<and> P i) \<longleftrightarrow>
   (x = g \<and> P 0) \<or> (\<exists>j<length xs. xs ! j = g \<and> P (Suc j))"
proof
  assume "\<exists>i<length (x # xs). (x # xs) ! i = g \<and> P i"
  then obtain i where i: "i < length (x # xs)" "(x # xs) ! i = g" "P i" by blast
  then show "(x = g \<and> P 0) \<or> (\<exists>j<length xs. xs ! j = g \<and> P (Suc j))"
    by (cases i) auto
next
  assume "(x = g \<and> P 0) \<or> (\<exists>j<length xs. xs ! j = g \<and> P (Suc j))"
  then show "\<exists>i<length (x # xs). (x # xs) ! i = g \<and> P i"
  proof
    assume "x = g \<and> P 0"
    then have "0 < length (x # xs) \<and> (x # xs) ! 0 = g \<and> P 0" by simp
    then show ?thesis by blast
  next
    assume "\<exists>j<length xs. xs ! j = g \<and> P (Suc j)"
    then obtain j where "j < length xs" "xs ! j = g" "P (Suc j)" by blast
    then have "Suc j < length (x # xs) \<and> (x # xs) ! Suc j = g \<and> P (Suc j)" by simp
    then show ?thesis by blast
  qed
qed

lemma assignCommunityIds_fst:
  "distinct gs \<Longrightarrow>
   fst (assignCommunityIds gs (m, k)) g = Some c \<longleftrightarrow>
     (\<exists>i<length gs. gs ! i = g \<and> c = k + i) \<or> (g \<notin> set gs \<and> m g = Some c)"
proof (induction gs arbitrary: m k)
  case Nil
  then show ?case by simp
next
  case (Cons x xs)
  have d: "x \<notin> set xs" "distinct xs" using Cons.prems by simp_all
  have "fst (assignCommunityIds (x # xs) (m, k)) g
      = fst (assignCommunityIds xs (m(x \<mapsto> k), Suc k)) g"
    by simp
  then have "fst (assignCommunityIds (x # xs) (m, k)) g = Some c \<longleftrightarrow>
        (\<exists>i<length xs. xs ! i = g \<and> c = Suc k + i) \<or> (g \<notin> set xs \<and> (m(x \<mapsto> k)) g = Some c)"
    using Cons.IH [OF d(2), of "m(x \<mapsto> k)" "Suc k"] by (simp only:)
  also have "\<dots> \<longleftrightarrow> (x = g \<and> c = k + 0) \<or> (\<exists>j<length xs. xs ! j = g \<and> c = k + Suc j)
                     \<or> (g \<notin> set (x # xs) \<and> m g = Some c)"
  proof (cases "x = g")
    case True
    then have "\<not> (\<exists>j<length xs. xs ! j = g \<and> c = k + Suc j)"
      using d(1) nth_mem by blast
    then show ?thesis using True d(1) by auto
  next
    case False
    then show ?thesis by auto
  qed
  also have "\<dots> \<longleftrightarrow> (\<exists>i<length (x # xs). (x # xs) ! i = g \<and> c = k + i)
                     \<or> (g \<notin> set (x # xs) \<and> m g = Some c)"
    using ex_nth_Cons [of x xs g "\<lambda>i. c = k + i"] by blast
  finally show ?case .
qed

lemma distinct_primaryGenres: "distinct primaryGenres"
  by (simp add: primaryGenres_def)

lemma length_primaryGenres: "length primaryGenres = 15"
  by (simp add: primaryGenres_def)

lemma defaultCommunity_eq: "defaultCommunity = 15"
  by (simp add: defaultCommunity_def assignCommunityIds_snd length_primaryGenres)

lemma genreToCommunity_Some:
  "genreToCommunity g = Some c \<longleftrightarrow> c < length primaryGenres \<and> primaryGenres ! c = g"
  unfolding genreToCommunity_def
  using assignCommunityIds_fst [OF distinct_primaryGenres, of Map.empty 0 g c]
  by auto

lemma genreToCommunity_None: "genreToCommunity g = None \<longleftrightarrow> g \<notin> set primaryGenres"
proof -
  have "genreToCommunity g \<noteq> None \<longleftrightarrow> (\<exists>c. genreToCommunity g = Some c)" by auto
  also have "\<dots> \<longleftrightarrow> g \<in> set primaryGenres"
    unfolding genreToCommunity_Some by (auto simp: in_set_conv_nth)
  finally show ?thesis by blast
qed

lemma firstPrimaryGenre_find:
  "firstPrimaryGenre m gs = (case find (\<lambda>g. m g \<noteq> None) gs of None \<Rightarrow> None | Some g \<Rightarrow> m g)"
  by (induction gs) (auto split: option.splits)

subsection \<open>Nodes that survive the removal of isolated nodes\<close>

lemma nodeIds_set: "set (nodeIds es) = source ` set es \<union> target ` set es"
  by (auto simp: nodeIds_def)

lemma buildGraph_nodes_have_edges:
  "n \<in> set (nodes (buildGraph animeList es)) \<Longrightarrow>
   \<exists>e\<in>set (edges (buildGraph animeList es)). source e = node_id n \<or> target e = node_id n"
  by (auto simp: buildGraph_def Let_def nodeIds_set)

lemma degree_0_iff:
  "degree g n = 0 \<longleftrightarrow> (\<forall>e\<in>set (g_edges g). source e \<noteq> n \<and> target e \<noteq> n)"
  by (auto simp: degree_def filter_empty_conv)

lemma dropNode_isolated:
  "degree g n = 0 \<Longrightarrow> g_edges (dropNode n g) = g_edges g"
  by (simp add: dropNode_def degree_0_iff)

lemma degree_cong: "g_edges g = g_edges g' \<Longrightarrow> degree g n = degree g' n"
  by (simp add: degree_def)

lemma fold_dropNode_isolated:
  "\<forall>n\<in>set ns. degree g n = 0 \<Longrightarrow>
   g_edges (fold dropNode ns g) = g_edges g \<and>
   g_nodes (fold dropNode ns g) = filter (\<lambda>m. m \<notin> set ns) (g_nodes g)"
proof (induction ns arbitrary: g)
  case Nil
  then show ?case by simp
next
  case (Cons n ns)
  have e: "g_edges (dropNode n g) = g_edges g"
    using Cons.prems by (simp add: dropNode_isolated)
  then have "\<forall>m\<in>set ns. degree (dropNode n g) m = 0"
    using Cons.prems degree_cong [OF e] by simp
  from Cons.IH [OF this] e show ?case
    by (auto simp: dropNode_def intro: filter_cong)
qed

lemma buildRecommendationGraph_nodes_have_edges:
  assumes "buildRecommendationGraph animeList = Some g" and "n \<in> set (g_nodes g)"
  shows "\<exists>e\<in>set (g_edges g). source e = n \<or> target e = n"
proof -
  from assms(1) obtain g0 where "addAllNodes animeList emptyGraph = Some g0"
    and g: "g = (let g1 = addRecommendations (map rec_id animeList) animeList g0
                 in fold dropNode (isolatedNodes g1) g1)"
    by (auto simp: buildRecommendationGraph_def Let_def split: option.splits)
  define g1 where "g1 = addRecommendations (map rec_id animeList) animeList g0"
  have iso: "\<forall>m\<in>set (isolatedNodes g1). degree g1 m = 0"
    by (simp add: isolatedNodes_def)
  have g': "g = fold dropNode (isolatedNodes g1) g1"
    using g by (simp add: g1_def Let_def)
  from fold_dropNode_isolated [OF iso]
  have ed: "g_edges g = g_edges g1"
    and nd: "g_nodes g = filter (\<lambda>m. m \<notin> set (isolatedNodes g1)) (g_nodes g1)"
    unfolding g' by simp_all
  from assms(2) nd have "n \<in> set (g_nodes g1)" "n \<notin> set (isolatedNodes g1)"
    by simp_all
  then have "degree g1 n \<noteq> 0"
    by (simp add: isolatedNodes_def)
  then show ?thesis
    unfolding ed by (auto simp: degree_0_iff)
qed

lemma recItems_graph:
  "buildRecommendationGraph recItems
     = Some \<lparr>g_nodes = [1, 2], g_edges = [\<lparr>source = 1, target = 2, weight = 5 / 2\<rparr>]\<rparr>"
  by (simp add: buildRecommendationGraph_def recItems_def emptyGraph_def addNode_def hasNode_def
      addRecommendations_def addRecommendation_def MIN_RATING_def hasEdge_def joins_def
      addEdge_def getEdgeWeight_def setEdgeWeight_def isolatedNodes_def degree_def dropNode_def
      Let_def)

lemma sample_graph:
  "buildGraph [symA, symB, symC] (computeSimilaritiesAt (1 / 2) [symA, symB, symC])
     = \<lparr>nodes = [toNode symA, toNode symB],
         edges = [\<lparr>source = 1, target = 2, weight = 109 / 216\<rparr>]\<rparr>"
  by (simp add: buildGraph_def nodeIds_def jsSet_def toNode_def computeAnimeSimilarity_def
      step_defs sample_defs Let_def)

subsection \<open>Normalising one axis\<close>

lemma fold_jsMin_Num:
  "fold (\<lambda>n m. jsMin m (Num (f n))) ns (Num a) = Num (fold min (map f ns) a)"
  by (induction ns arbitrary: a) (simp_all add: min.commute)

lemma fold_jsMax_Num:
  "fold (\<lambda>n m. jsMax m (Num (f n))) ns (Num a) = Num (fold max (map f ns) a)"
  by (induction ns arbitrary: a) (simp_all add: max.commute)

lemma fold_jsMin_start:
  "ns \<noteq> [] \<Longrightarrow> fold (\<lambda>n m. jsMin m (Num (f n))) ns PosInfinity = Num (Min (f ` set ns))"
proof (cases ns)
  case Nil
  then show "ns \<noteq> [] \<Longrightarrow> ?thesis" by simp
next
  case (Cons n rest)
  have "fold (\<lambda>n m. jsMin m (Num (f n))) ns PosInfinity = Num (fold min (map f rest) (f n))"
    by (simp add: Cons fold_jsMin_Num)
  also have "fold min (map f rest) (f n) = Min (set (f n # map f rest))"
    by (rule Min.set_eq_fold [symmetric])
  finally show ?thesis by (simp add: Cons)
qed

lemma fold_jsMax_start:
  "ns \<noteq> [] \<Longrightarrow> fold (\<lambda>n m. jsMax m (Num (f n))) ns NegInfinity = Num (Max (f ` set ns))"
proof (cases ns)
  case Nil
  then show "ns \<noteq> [] \<Longrightarrow> ?thesis" by simp
next
  case (Cons n rest)
  have "fold (\<lambda>n m. jsMax m (Num (f n))) ns NegInfinity = Num (fold max (map f rest) (f n))"
    by (simp add: Cons fold_jsMax_Num)
  also have "fold max (map f rest) (f n) = Max (set (f n # map f rest))"
    by (rule Max.set_eq_fold [symmetric])
  finally show ?thesis by (simp add: Cons)
qed

lemma axis_value:
  fixes v lo hi :: real
  assumes "lo < hi"
  shows "jsRound (jsMul (jsDiv (jsSub (Num v) (Num lo)) (jsSub (Num hi) (Num lo))) (Num worldScale))
       = Num (of_int \<lfloor>(v - lo) / (hi - lo) * worldScale + 1 / 2\<rfloor>)"
proof -
  have "hi - lo \<noteq> 0" using assms by simp
  then show ?thesis by simp
qed

lemma axis_in_world:
  fixes v lo hi :: real
  assumes "lo \<le> v" "v \<le> hi" "lo < hi"
  shows "inWorld (jsRound (jsMul (jsDiv (jsSub (Num v) (Num lo)) (jsSub (Num hi) (Num lo)))
           (Num worldScale)))"
proof -
  define q where "q = (v - lo) / (hi - lo)"
  have pos: "0 < hi - lo" using assms(3) by simp
  have q0: "0 \<le> q"
    unfolding q_def using assms(1) pos by (intro divide_nonneg_pos) simp_all
  have "v - lo \<le> hi - lo" using assms(2) by simp
  then have q1: "q \<le> 1"
    unfolding q_def using pos by (simp add: divide_le_eq)
  define k where "k = \<lfloor>q * worldScale + 1 / 2\<rfloor>"
  have w0: "0 \<le> q * worldScale"
    unfolding worldScale_def using q0 by (intro mult_nonneg_nonneg) simp_all
  have "q * worldScale \<le> 1 * worldScale"
    unfolding worldScale_def using q1 by (intro mult_right_mono) simp_all
  then have w1: "q * worldScale \<le> 20000" by (simp add: worldScale_def)
  have "(0::real) \<le> q * worldScale + 1 / 2" using w0 by linarith
  then have k0: "0 \<le> k" unfolding k_def by (simp only: zero_le_floor)
  have "q * worldScale + 1 / 2 < of_int (20000 + 1)" using w1 by simp
  then have "k < 20000 + 1" unfolding k_def by (simp only: floor_less_iff)
  then have k1: "k \<le> 20000" by simp
  have "jsRound (jsMul (jsDiv (jsSub (Num v) (Num lo)) (jsSub (Num hi) (Num lo))) (Num worldScale))
       = Num (of_int k)"
    unfolding k_def q_def by (rule axis_value [OF assms(3)])
  moreover have "real_of_int k \<le> worldScale"
    using k1 by (simp add: worldScale_def)
  ultimately show ?thesis
    unfolding inWorld_def using k0 by blast
qed

lemma outputX_eq:
  assumes "n \<in> set ns"
  shows "outputX ns n = jsRound (jsMul (jsDiv (jsSub (Num (pos_x n)) (Num (Min (pos_x ` set ns))))
       (jsSub (Num (Max (pos_x ` set ns))) (Num (Min (pos_x ` set ns))))) (Num worldScale))"
proof -
  from assms have "ns \<noteq> []" by auto
  from fold_jsMin_start [OF this, of pos_x] fold_jsMax_start [OF this, of pos_x]
  show ?thesis
    by (simp only: outputX_def rangeX_def minX_def maxX_def)
qed

lemma outputY_eq:
  assumes "n \<in> set ns"
  shows "outputY ns n = jsRound (jsMul (jsDiv (jsSub (Num (pos_y n)) (Num (Min (pos_y ` set ns))))
       (jsSub (Num (Max (pos_y ` set ns))) (Num (Min (pos_y ` set ns))))) (Num worldScale))"
proof -
  from assms have "ns \<noteq> []" by auto
  from fold_jsMin_start [OF this, of pos_y] fold_jsMax_start [OF this, of pos_y]
  show ?thesis
    by (simp only: outputY_def rangeY_def minY_def maxY_def)
qed

lemma axis_bounds:
  fixes f :: "positioned \<Rightarrow> real"
  assumes "n \<in> set ns"
  shows "Min (f ` set ns) \<le> f n" and "f n \<le> Max (f ` set ns)"
proof -
  have fin: "finite (f ` set ns)" by (rule finite_imageI) (rule finite_set)
  have mem: "f n \<in> f ` set ns" using assms by (rule imageI)
  show "Min (f ` set ns) \<le> f n" using fin mem by (rule Min_le)
  show "f n \<le> Max (f ` set ns)" using fin mem by (rule Max_ge)
qed

lemma axis_spread:
  fixes f :: "positioned \<Rightarrow> real"
  assumes "a \<in> set ns" "b \<in> set ns" "f a \<noteq> f b"
  shows "Min (f ` set ns) < Max (f ` set ns)"
proof -
  note A = axis_bounds [OF assms(1), of f] and B = axis_bounds [OF assms(2), of f]
  from A B assms(3) show ?thesis by linarith
qed

lemma collapsed_output: "outputNodes collapsed = [(1, NaN, Num 0), (2, NaN, Num 20000)]"
  by (simp add: outputNodes_def outputX_def outputY_def rangeX_def rangeY_def minX_def maxX_def
      minY_def maxY_def collapsed_def worldScale_def)

lemma spread_output:
  "outputNodes spread = [(1, Num 0, Num 0), (2, Num 20000, Num 20000), (3, Num 15000, Num 10000)]"
  by (simp add: outputNodes_def outputX_def outputY_def rangeX_def rangeY_def minX_def maxX_def
      minY_def maxY_def spread_def worldScale_def)

subsection \<open>The weight table of a node\<close>

lemma remdups_snoc: "remdups (ys @ [x]) = filter (\<lambda>y. y \<noteq> x) (remdups ys) @ [x]"
  by (induction ys) auto

lemma jsSet_Cons: "jsSet (x # xs) = x # filter (\<lambda>y. y \<noteq> x) (jsSet xs)"
  by (simp add: jsSet_def remdups_snoc rev_filter)

lemma addWeight_keys:
  "map fst (addWeight kvs l w) =
     (if l \<in> set (map fst kvs) then map fst kvs else map fst kvs @ [l])"
  by (induction kvs l w rule: addWeight.induct) auto

lemma addWeight_lookup:
  "map_of (addWeight kvs l w) k =
     (if k = l then Some ((case map_of kvs l of None \<Rightarrow> 0 | Some v \<Rightarrow> v) + w)
      else map_of kvs k)"
  by (induction kvs l w rule: addWeight.induct) auto

lemma labelWeight_Nil [simp]: "labelWeight c [] l = 0"
  by (simp add: labelWeight_def)

lemma labelWeight_Cons:
  "labelWeight c ((nid, w) # rest) l = (if c nid = l then w else 0) + labelWeight c rest l"
  by (simp add: labelWeight_def)

lemma fold_addWeight_lookup:
  "map_of (fold (\<lambda>(nid, w) cw. addWeight cw (c nid) w) nbrs kvs) l =
     (if l \<in> (\<lambda>(nid, w). c nid) ` set nbrs \<or> map_of kvs l \<noteq> None
      then Some ((case map_of kvs l of None \<Rightarrow> 0 | Some v \<Rightarrow> v) + labelWeight c nbrs l)
      else None)"
proof (induction nbrs arbitrary: kvs)
  case Nil
  then show ?case by (auto split: option.splits)
next
  case (Cons nb nbrs)
  obtain nid w where nb: "nb = (nid, w)" by (cases nb)
  show ?case
    unfolding nb
    by (simp add: Cons.IH addWeight_lookup labelWeight_Cons split: option.splits)
qed

lemma fold_addWeight_keys:
  "map fst (fold (\<lambda>(nid, w) cw. addWeight cw (c nid) w) nbrs kvs) =
     map fst kvs @ filter (\<lambda>l. l \<notin> set (map fst kvs)) (jsSet (map (\<lambda>(nid, w). c nid) nbrs))"
proof (induction nbrs arbitrary: kvs)
  case Nil
  then show ?case by (simp add: jsSet_def)
next
  case (Cons nb nbrs)
  obtain nid w where nb: "nb = (nid, w)" by (cases nb)
  show ?case
  proof (cases "c nid \<in> set (map fst kvs)")
    case True
    have "filter (\<lambda>l. l \<notin> set (map fst kvs))
            (filter (\<lambda>y. y \<noteq> c nid) (jsSet (map (\<lambda>(nid, w). c nid) nbrs)))
        = filter (\<lambda>l. l \<notin> set (map fst kvs)) (jsSet (map (\<lambda>(nid, w). c nid) nbrs))"
      using True by (auto intro: filter_cong)
    then show ?thesis
      unfolding nb using True by (simp add: Cons.IH addWeight_keys jsSet_Cons)
  next
    case False
    have "filter (\<lambda>l. l \<notin> set (map fst kvs) \<and> l \<noteq> c nid) (jsSet (map (\<lambda>(nid, w). c nid) nbrs))
        = filter (\<lambda>l. l \<notin> set (map fst kvs))
            (filter (\<lambda>y. y \<noteq> c nid) (jsSet (map (\<lambda>(nid, w). c nid) nbrs)))"
      by (auto intro: filter_cong)
    then show ?thesis
      unfolding nb using False by (simp add: Cons.IH addWeight_keys jsSet_Cons)
  qed
qed

lemma communityWeights_lookup:
  "map_of (communityWeights c nbrs) l =
     (if l \<in> (\<lambda>(nid, w). c nid) ` set nbrs then Some (labelWeight c nbrs l) else None)"
  unfolding communityWeights_def by (simp add: fold_addWeight_lookup)

lemma communityWeights_keys:
  "map fst (communityWeights c nbrs) = jsSet (map (\<lambda>(nid, w). c nid) nbrs)"
  unfolding communityWeights_def by (simp add: fold_addWeight_keys)

lemma communityWeights_entry:
  assumes "(l, w) \<in> set (communityWeights c nbrs)"
  shows "w = labelWeight c nbrs l"
proof -
  have "distinct (map fst (communityWeights c nbrs))"
    by (simp add: communityWeights_keys)
  then have "map_of (communityWeights c nbrs) l = Some w"
    using assms by simp
  then show ?thesis
    by (simp add: communityWeights_lookup split: if_splits)
qed

subsection \<open>The best label\<close>

lemma findBest_max:
  "findBest kvs (m0, b0) = (m, b) \<Longrightarrow> m0 \<le> m \<and> (\<forall>(k, w)\<in>set kvs. w \<le> m)"
proof (induction kvs arbitrary: m0 b0)
  case Nil
  then show ?case by simp
next
  case (Cons kv kvs)
  obtain k w where kv: "kv = (k, w)" by (cases kv)
  show ?case
  proof (cases "w > m0")
    case True
    then have "findBest kvs (w, k) = (m, b)" using Cons.prems by (simp add: kv)
    from Cons.IH [OF this] True show ?thesis by (auto simp: kv)
  next
    case False
    then have "findBest kvs (m0, b0) = (m, b)" using Cons.prems by (simp add: kv)
    from Cons.IH [OF this] False show ?thesis by (auto simp: kv)
  qed
qed

lemma findBest_keep:
  "\<forall>(k, w)\<in>set kvs. w \<le> m0 \<Longrightarrow> findBest kvs (m0, b0) = (m0, b0)"
  by (induction kvs) auto

lemma firstMaximal_Cons:
  "firstMaximal kvs l m \<Longrightarrow> w < m \<Longrightarrow> firstMaximal ((k, w) # kvs) l m"
proof -
  assume "firstMaximal kvs l m" and w: "w < m"
  then obtain pre post where p: "kvs = pre @ (l, m) # post" "\<forall>(k, w)\<in>set pre. w < m"
      "\<forall>(k, w)\<in>set post. w \<le> m"
    unfolding firstMaximal_def by blast
  have "(k, w) # kvs = ((k, w) # pre) @ (l, m) # post" using p(1) by simp
  moreover have "\<forall>(k', w')\<in>set ((k, w) # pre). w' < m" using p(2) w by simp
  ultimately show ?thesis unfolding firstMaximal_def using p(3) by blast
qed

lemma findBest_first:
  "findBest kvs (m0, b0) = (m, b) \<Longrightarrow> \<exists>(k, w)\<in>set kvs. w > m0 \<Longrightarrow> firstMaximal kvs b m"
proof (induction kvs arbitrary: m0 b0)
  case Nil
  then show ?case by simp
next
  case (Cons kv kvs)
  obtain k w where kv: "kv = (k, w)" by (cases kv)
  show ?case
  proof (cases "w > m0")
    case True
    then have r: "findBest kvs (w, k) = (m, b)" using Cons.prems(1) by (simp add: kv)
    show ?thesis
    proof (cases "\<exists>(k', w')\<in>set kvs. w' > w")
      case True
      from Cons.IH [OF r True] have fm: "firstMaximal kvs b m" .
      from True findBest_max [OF r] have "w < m" by fastforce
      with fm show ?thesis unfolding kv by (rule firstMaximal_Cons)
    next
      case False
      then have le: "\<forall>(k', w')\<in>set kvs. w' \<le> w" by (auto simp: not_less)
      from findBest_keep [OF this, of k] r have "m = w" "b = k" by simp_all
      then have "kv # kvs = [] @ (b, m) # kvs" by (simp add: kv)
      then show ?thesis
        unfolding firstMaximal_def using le \<open>m = w\<close> by fastforce
    qed
  next
    case False
    then have r: "findBest kvs (m0, b0) = (m, b)" using Cons.prems(1) by (simp add: kv)
    from Cons.prems(2) False have ex: "\<exists>(k', w')\<in>set kvs. w' > m0" by (auto simp: kv)
    from Cons.IH [OF r ex] have fm: "firstMaximal kvs b m" .
    from ex findBest_max [OF r] have "m0 < m" by fastforce
    with False have "w < m" by simp
    with fm show ?thesis unfolding kv by (rule firstMaximal_Cons)
  qed
qed

subsection \<open>One node, one sweep, the loop\<close>

lemma updateNode_isolated:
  "adj n = Some [] \<Longrightarrow> updateNode adj n st = Some st"
  by (cases st) (simp add: updateNode_def)

lemma updateNode_result:
  assumes "adj n = Some nbrs" "nbrs \<noteq> []"
    and "findBest (communityWeights c nbrs) (0, c n) = (m, b)"
  shows "updateNode adj n (c, ch) = Some (c(n := b), ch \<or> b \<noteq> c n)"
proof (cases "b = c n")
  case True
  then have "c(n := b) = c" by simp
  then show ?thesis using assms True by (simp add: updateNode_def)
next
  case False
  then show ?thesis using assms by (simp add: updateNode_def)
qed

lemma updateNode_cases:
  assumes "updateNode adj n (c, ch) = Some (c', ch')"
  shows "(c' = c \<and> ch' = ch) \<or> ch'"
proof -
  from assms obtain nbrs where nb: "adj n = Some nbrs"
    by (auto simp: updateNode_def split: option.splits)
  show ?thesis
  proof (cases "nbrs = []")
    case True
    then show ?thesis using assms nb by (simp add: updateNode_isolated)
  next
    case False
    obtain m b where mb: "findBest (communityWeights c nbrs) (0, c n) = (m, b)" by force
    from updateNode_result [of adj n nbrs c m b ch] nb False mb assms
    have "c' = c(n := b)" "ch' = (ch \<or> b \<noteq> c n)" by simp_all
    then show ?thesis by (cases "b = c n") auto
  qed
qed

lemma updateNode_total:
  "adj n \<noteq> None \<Longrightarrow> \<exists>st'. updateNode adj n st = Some st'"
  by (cases st) (auto simp: updateNode_def Let_def split: option.splits prod.splits)

lemma sweep_total:
  "\<forall>n\<in>set ns. adj n \<noteq> None \<Longrightarrow> \<exists>st'. sweep adj ns st = Some st'"
proof (induction ns arbitrary: st)
  case Nil
  then show ?case by simp
next
  case (Cons n ns)
  then obtain st1 where "updateNode adj n st = Some st1"
    using updateNode_total [of adj n st] by auto
  with Cons show ?case by simp
qed

lemma sweep_flag_stays:
  "sweep adj ns (c, True) = Some (c', ch') \<Longrightarrow> ch'"
proof (induction ns arbitrary: c)
  case Nil
  then show ?case by simp
next
  case (Cons n ns)
  then obtain c1 ch1 where u: "updateNode adj n (c, True) = Some (c1, ch1)"
      and s: "sweep adj ns (c1, ch1) = Some (c', ch')"
    by (auto split: option.splits)
  from updateNode_cases [OF u] have "ch1" by auto
  with s Cons.IH show ?case by simp
qed

lemma sweep_unchanged:
  "sweep adj ns (c, ch) = Some (c', False) \<Longrightarrow> c' = c \<and> \<not> ch"
proof (induction ns arbitrary: c ch)
  case Nil
  then show ?case by simp
next
  case (Cons n ns)
  then obtain c1 ch1 where u: "updateNode adj n (c, ch) = Some (c1, ch1)"
      and s: "sweep adj ns (c1, ch1) = Some (c', False)"
    by (auto split: option.splits)
  from Cons.IH [OF s] have "c' = c1" "\<not> ch1" by simp_all
  with updateNode_cases [OF u] show ?case by auto
qed

lemma labelLoop_stop:
  "\<not> (changed \<and> iterations < maxIterations) \<Longrightarrow>
   labelLoop adj ids (c, changed, iterations) = Some (c, changed, iterations)"
  by auto

lemma labelLoop_step:
  "changed \<Longrightarrow> iterations < maxIterations \<Longrightarrow> sweep adj ids (c, False) = Some (c1, ch1) \<Longrightarrow>
   labelLoop adj ids (c, changed, iterations) = labelLoop adj ids (c1, ch1, iterations + 1)"
  by simp

declare labelLoop.simps [simp del]

lemma labelLoop_bound:
  "labelLoop adj ids (c, ch, it) = Some (c', ch', it') \<Longrightarrow>
   it \<le> it' \<and> (it \<le> maxIterations \<longrightarrow> it' \<le> maxIterations)
   \<and> (\<not> ch' \<or> maxIterations \<le> it')"
proof (induction adj ids "(c, ch, it)" arbitrary: c ch it rule: labelLoop.induct)
  case (1 adj ids c ch it)
  show ?case
  proof (cases "ch \<and> it < maxIterations")
    case False
    then have "c' = c" "ch' = ch" "it' = it"
      using "1.prems" labelLoop_stop [OF False, of adj ids c] by simp_all
    with False show ?thesis by auto
  next
    case True
    then obtain c1 ch1 where s: "sweep adj ids (c, False) = Some (c1, ch1)"
      using "1.prems" by (auto simp: labelLoop.simps split: option.splits)
    have r: "labelLoop adj ids (c1, ch1, it + 1) = Some (c', ch', it')"
      using "1.prems" labelLoop_step [of ch it adj ids c c1 ch1] True s by simp
    from "1.hyps" [OF True s refl r] True show ?thesis by auto
  qed
qed

lemma labelLoop_fixed_point:
  "labelLoop adj ids (c, ch, it) = Some (c', False, it') \<Longrightarrow> ch \<Longrightarrow> it < maxIterations \<Longrightarrow>
   sweep adj ids (c', False) = Some (c', False)"
proof (induction adj ids "(c, ch, it)" arbitrary: c ch it rule: labelLoop.induct)
  case (1 adj ids c ch it)
  have go: "ch \<and> it < maxIterations" using "1.prems" by simp
  from "1.prems" obtain c1 ch1 where s: "sweep adj ids (c, False) = Some (c1, ch1)"
    by (auto simp: labelLoop.simps split: option.splits)
  have r: "labelLoop adj ids (c1, ch1, it + 1) = Some (c', False, it')"
    using "1.prems" labelLoop_step [of ch it adj ids c c1 ch1] s by simp
  show ?case
  proof (cases ch1)
    case False
    then have "c' = c1" using r labelLoop_stop [of ch1 "it + 1" adj ids c1] by simp
    moreover have "c1 = c" using sweep_unchanged [of adj ids c False c1] s False by simp
    ultimately show ?thesis using s False by simp
  next
    case True
    show ?thesis
    proof (cases "it + 1 < maxIterations")
      case t: True
      from "1.hyps" [OF go s refl r True t] show ?thesis .
    next
      case False
      then have "labelLoop adj ids (c1, ch1, it + 1) = Some (c1, ch1, it + 1)"
        by (simp add: labelLoop_stop)
      with r True show ?thesis by simp
    qed
  qed
qed

lemma labelLoop_total:
  "\<forall>n\<in>set ids. adj n \<noteq> None \<Longrightarrow> \<exists>r. labelLoop adj ids (c, ch, it) = Some r"
proof (induction adj ids "(c, ch, it)" arbitrary: c ch it rule: labelLoop.induct)
  case (1 adj ids c ch it)
  show ?case
  proof (cases "ch \<and> it < maxIterations")
    case False
    from labelLoop_stop [OF this] show ?thesis by (rule exI)
  next
    case True
    obtain c1 ch1 where s: "sweep adj ids (c, False) = Some (c1, ch1)"
      using sweep_total [OF "1.prems", of "(c, False)"] by auto
    from "1.hyps" [OF True s refl "1.prems"]
    obtain r where "labelLoop adj ids (c1, ch1, it + 1) = Some r" by blast
    then have "labelLoop adj ids (c, ch, it) = Some r"
      using labelLoop_step [of ch it adj ids c c1 ch1] True s by simp
    then show ?thesis by (rule exI)
  qed
qed

lemma dom_initAdjacency_fold:
  "dom (fold (\<lambda>n adj. adj(n \<mapsto> [])) ids m) = dom m \<union> set ids"
  by (induction ids arbitrary: m) auto

lemma dom_initAdjacency: "dom (initAdjacency ids) = set ids"
  by (simp add: initAdjacency_def dom_initAdjacency_fold)

lemma pushNeighbor_dom:
  "k \<in> dom adj \<Longrightarrow> \<exists>adj'. pushNeighbor adj k entry = Some adj' \<and> dom adj' = dom adj"
  by (auto simp: pushNeighbor_def split: option.splits)

lemma addEdges_total:
  "\<forall>e\<in>set es. source e \<in> dom adj \<and> target e \<in> dom adj \<Longrightarrow>
   \<exists>adj'. addEdges es adj = Some adj' \<and> dom adj' = dom adj"
proof (induction es arbitrary: adj)
  case Nil
  then show ?case by simp
next
  case (Cons e es)
  then have se: "source e \<in> dom adj" and te: "target e \<in> dom adj" by simp_all
  from pushNeighbor_dom [OF se, of "(target e, weight e)"]
  obtain adj1 where 1: "pushNeighbor adj (source e) (target e, weight e) = Some adj1"
      "dom adj1 = dom adj" by blast
  from te 1(2) have "target e \<in> dom adj1" by simp
  from pushNeighbor_dom [OF this, of "(source e, weight e)"]
  obtain adj2 where 2: "pushNeighbor adj1 (target e) (source e, weight e) = Some adj2"
      "dom adj2 = dom adj1" by blast
  have "\<forall>e\<in>set es. source e \<in> dom adj2 \<and> target e \<in> dom adj2"
    using Cons.prems 1(2) 2(2) by simp
  from Cons.IH [OF this] obtain adj' where "addEdges es adj2 = Some adj'" "dom adj' = dom adj2"
    by blast
  then show ?case using 1 2 by simp
qed

lemma propagateLabels_total:
  assumes "\<forall>e\<in>set es. source e \<in> set ids \<and> target e \<in> set ids"
  shows "\<exists>c ch it. propagateLabels ids es = Some (c, ch, it) \<and> it \<le> maxIterations
           \<and> (\<not> ch \<or> it = maxIterations)"
proof -
  from addEdges_total [of es "initAdjacency ids"] assms
  obtain adj where adj: "addEdges es (initAdjacency ids) = Some adj" "dom adj = set ids"
    by (auto simp: dom_initAdjacency)
  then have "\<forall>n\<in>set ids. adj n \<noteq> None" by auto
  from labelLoop_total [OF this, of "initCommunities ids" True 0]
  obtain res where "labelLoop adj ids (initCommunities ids, True, 0) = Some res" by blast
  moreover obtain c ch it where "res = (c, ch, it)" by (cases res)
  ultimately have r: "labelLoop adj ids (initCommunities ids, True, 0) = Some (c, ch, it)"
    by simp
  from labelLoop_bound [OF r] have "it \<le> maxIterations" "\<not> ch \<or> it = maxIterations"
    by auto
  then show ?thesis using adj(1) r by (simp add: propagateLabels_def)
qed

subsection \<open>Subdivision and the values it draws\<close>

lemma makeChildren_Suc:
  "makeChildren rnd t p i (Suc left) k =
     (childOf rnd t p i k # fst (makeChildren rnd t p (i + 1) left (k + 2)),
      snd (makeChildren rnd t p (i + 1) left (k + 2)))"
  by (simp add: Let_def split: prod.splits)

lemma subdivideNodes_Cons:
  "subdivideNodes rnd t sz (p # ps) k =
     (fst (makeChildren rnd t p 0 (subgroups t sz p) k)
        @ fst (subdivideNodes rnd t sz ps (snd (makeChildren rnd t p 0 (subgroups t sz p) k))),
      snd (subdivideNodes rnd t sz ps (snd (makeChildren rnd t p 0 (subgroups t sz p) k))))"
  by (simp add: Let_def split: prod.splits)

declare makeChildren.simps(2) [simp del] subdivideNodes.simps(2) [simp del]

lemma makeChildren_count:
  "length (fst (makeChildren rnd t p i left k)) = left \<and>
   snd (makeChildren rnd t p i left k) = k + 2 * left"
  by (induction left arbitrary: i k) (simp_all add: makeChildren_Suc)

lemma makeChildren_draws:
  "(\<forall>j < 2 * left. rnd (k + j) = rnd' (k + j)) \<Longrightarrow>
   makeChildren rnd t p i left k = makeChildren rnd' t p i left k"
proof (induction left arbitrary: i k)
  case 0
  then show ?case by simp
next
  case (Suc left)
  have a: "rnd k = rnd' k" using Suc.prems [rule_format, of 0] by simp
  have b: "rnd (k + 1) = rnd' (k + 1)" using Suc.prems [rule_format, of 1] by simp
  have "\<forall>j < 2 * left. rnd (k + 2 + j) = rnd' (k + 2 + j)"
  proof (intro allI impI)
    fix j assume "j < 2 * left"
    then have "j + 2 < 2 * Suc left" by simp
    from Suc.prems [rule_format, OF this] show "rnd (k + 2 + j) = rnd' (k + 2 + j)"
      by (simp add: add.commute add.left_commute)
  qed
  from Suc.IH [OF this, of "i + 1"] a b show ?case
    by (simp add: makeChildren_Suc childOf_def Let_def)
qed

lemma unplaced_childOf:
  "unplaced (childOf rnd t p i k) = (clusterId p * 1000 + i, clusterId p, t, hue p)"
  by (simp add: unplaced_def childOf_def newLayoutNode_def Let_def)

lemma makeChildren_unplaced:
  "map unplaced (fst (makeChildren rnd t p i left k)) =
   map (\<lambda>j. (clusterId p * 1000 + j, clusterId p, t, hue p)) [i ..< i + left]"
proof (induction left arbitrary: i k)
  case 0
  then show ?case by simp
next
  case (Suc left)
  have "[i ..< i + Suc left] = i # [i + 1 ..< i + 1 + left]"
    by (simp add: upt_conv_Cons)
  then show ?case
    using Suc.IH [of "i + 1" "k + 2"]
    by (simp only: makeChildren_Suc fst_conv list.map unplaced_childOf)
qed

lemma childOf_near:
  assumes "\<forall>j. 0 \<le> rnd j \<and> rnd j < 1"
  shows "\<bar>ln_x (childOf rnd t p i k) - ln_x p\<bar> \<le> 25
       \<and> \<bar>ln_y (childOf rnd t p i k) - ln_y p\<bar> \<le> 25
       \<and> hue (childOf rnd t p i k) = hue p
       \<and> clusterId (childOf rnd t p i k) = clusterId p
       \<and> tier (childOf rnd t p i k) = t"
proof -
  have "0 \<le> rnd k" "rnd k < 1" "0 \<le> rnd (k + 1)" "rnd (k + 1) < 1"
    using assms by simp_all
  then have "\<bar>(rnd k - 1 / 2) * 50\<bar> \<le> 25" "\<bar>(rnd (k + 1) - 1 / 2) * 50\<bar> \<le> 25"
    by (simp_all add: abs_le_iff)
  then show ?thesis by (simp add: childOf_def newLayoutNode_def Let_def)
qed

lemma makeChildren_near:
  assumes "\<forall>j. 0 \<le> rnd j \<and> rnd j < 1"
    and "c \<in> set (fst (makeChildren rnd t p i left k))"
  shows "\<bar>ln_x c - ln_x p\<bar> \<le> 25 \<and> \<bar>ln_y c - ln_y p\<bar> \<le> 25
         \<and> hue c = hue p \<and> clusterId c = clusterId p \<and> tier c = t"
  using assms(2)
proof (induction left arbitrary: i k)
  case 0
  then show ?case by simp
next
  case (Suc left)
  then have "c = childOf rnd t p i k \<or> c \<in> set (fst (makeChildren rnd t p (i + 1) left (k + 2)))"
    by (simp add: makeChildren_Suc)
  then show ?case
  proof
    assume "c = childOf rnd t p i k"
    then show ?thesis using childOf_near [OF assms(1), of t p i k] by simp
  next
    assume "c \<in> set (fst (makeChildren rnd t p (i + 1) left (k + 2)))"
    then show ?thesis by (rule Suc.IH)
  qed
qed

lemma subdivideNodes_count:
  "length (fst (subdivideNodes rnd t sz ps k)) = sum_list (map (subgroups t sz) ps) \<and>
   snd (subdivideNodes rnd t sz ps k) = k + 2 * sum_list (map (subgroups t sz) ps)"
  by (induction ps arbitrary: k) (simp_all add: subdivideNodes_Cons makeChildren_count)

lemma subdivideNodes_draws:
  "(\<forall>j < 2 * sum_list (map (subgroups t sz) ps). rnd (k + j) = rnd' (k + j)) \<Longrightarrow>
   subdivideNodes rnd t sz ps k = subdivideNodes rnd' t sz ps k"
proof (induction ps arbitrary: k)
  case Nil
  then show ?case by simp
next
  case (Cons p ps)
  let ?g = "subgroups t sz p"
  let ?s = "sum_list (map (subgroups t sz) ps)"
  have pre: "\<forall>j < 2 * (?g + ?s). rnd (k + j) = rnd' (k + j)" using Cons.prems by simp
  have "\<forall>j < 2 * ?g. rnd (k + j) = rnd' (k + j)" using pre by simp
  then have c: "makeChildren rnd t p 0 ?g k = makeChildren rnd' t p 0 ?g k"
    by (rule makeChildren_draws)
  have k1: "snd (makeChildren rnd' t p 0 ?g k) = k + 2 * ?g"
    by (simp add: makeChildren_count)
  have "\<forall>j < 2 * ?s. rnd (k + 2 * ?g + j) = rnd' (k + 2 * ?g + j)"
  proof (intro allI impI)
    fix j assume "j < 2 * ?s"
    then have "2 * ?g + j < 2 * (?g + ?s)" by simp
    from pre [rule_format, OF this] show "rnd (k + 2 * ?g + j) = rnd' (k + 2 * ?g + j)"
      by (simp add: add.assoc)
  qed
  from Cons.IH [OF this] show ?case
    by (simp only: subdivideNodes_Cons c k1)
qed

lemma subdivideNodes_unplaced:
  "map unplaced (fst (subdivideNodes rnd t sz ps k)) =
   map unplaced (fst (subdivideNodes rnd' t sz ps k'))"
proof (induction ps arbitrary: k k')
  case Nil
  then show ?case by simp
next
  case (Cons p ps)
  show ?case
    using Cons.IH
    by (simp add: subdivideNodes_Cons makeChildren_unplaced)
qed

lemma subdivideNodes_near:
  assumes "\<forall>j. 0 \<le> rnd j \<and> rnd j < 1"
    and "c \<in> set (fst (subdivideNodes rnd t sz ps k))"
  shows "\<exists>p\<in>set ps. \<bar>ln_x c - ln_x p\<bar> \<le> 25 \<and> \<bar>ln_y c - ln_y p\<bar> \<le> 25
           \<and> hue c = hue p \<and> clusterId c = clusterId p \<and> tier c = t"
  using assms(2)
proof (induction ps arbitrary: k)
  case Nil
  then show ?case by simp
next
  case (Cons p ps)
  let ?k1 = "snd (makeChildren rnd t p 0 (subgroups t sz p) k)"
  from Cons.prems have "c \<in> set (fst (makeChildren rnd t p 0 (subgroups t sz p) k))
      \<or> c \<in> set (fst (subdivideNodes rnd t sz ps ?k1))"
    by (simp add: subdivideNodes_Cons)
  then show ?case
  proof
    assume "c \<in> set (fst (makeChildren rnd t p 0 (subgroups t sz p) k))"
    from makeChildren_near [OF assms(1) this] show ?thesis by simp
  next
    assume "c \<in> set (fst (subdivideNodes rnd t sz ps ?k1))"
    from Cons.IH [OF this] show ?thesis by auto
  qed
qed

subsection \<open>Hue assignment\<close>

lemma jsRem_small: "0 \<le> x \<Longrightarrow> x < m \<Longrightarrow> jsRem x m = x"
proof -
  assume a: "0 \<le> x" "x < m"
  then have "0 \<le> x / m" "x / m < 1" by simp_all
  then have "\<lfloor>x / m\<rfloor> = 0" by (simp add: floor_eq_iff)
  then show ?thesis by (simp add: jsRem_def)
qed

lemma hue_in_turn:
  assumes "i < n"
  shows "jsRem (360 * real i / real n) 360 = 360 * real i / real n"
proof (rule jsRem_small)
  show "0 \<le> 360 * real i / real n" by simp
  have "real i / real n < 1" using assms by simp
  then have "360 * (real i / real n) < 360 * 1" by (intro mult_strict_left_mono) simp_all
  then show "360 * real i / real n < 360" by simp
qed

lemma map_hue_enumerate:
  "map hue (map (\<lambda>(i, n). n\<lparr>hue := f i\<rparr>) (enumerate 0 xs)) = map f [0 ..< length xs]"
  by (rule nth_equalityI) (simp_all add: nth_enumerate_eq)

lemma map_clusterId_enumerate:
  "map clusterId (map (\<lambda>(i, n). n\<lparr>hue := f i\<rparr>) (enumerate 0 xs)) = map clusterId xs"
  by (rule nth_equalityI) (simp_all add: nth_enumerate_eq)

lemma length_swapMiddle [simp]: "length (swapMiddle xs) = length xs"
  by (simp add: swapMiddle_def Let_def)

lemma mset_swapMiddle: "mset (swapMiddle xs) = mset xs"
proof (cases "length xs > 2")
  case True
  then have "1 < length xs" "length xs div 2 < length xs" by simp_all
  then show ?thesis
    using True by (simp add: swapMiddle_def Let_def mset_swap)
next
  case False
  then show ?thesis by (simp add: swapMiddle_def)
qed

lemma hd_swapMiddle: "hd (swapMiddle xs) = hd xs"
proof (cases "length xs > 2")
  case True
  then have "length xs div 2 \<noteq> 0" "xs \<noteq> []" by auto
  then show ?thesis
    using True by (simp add: swapMiddle_def Let_def hd_conv_nth)
next
  case False
  then show ?thesis by (simp add: swapMiddle_def)
qed

lemma sorted_le_last: "sorted xs \<Longrightarrow> x \<in> set xs \<Longrightarrow> x \<le> last xs"
  for xs :: "nat list"
  by (induction xs) auto

lemma largest_last:
  fixes f :: "'a \<Rightarrow> nat"
  assumes "n \<in> set ns"
  shows "f n \<le> f (last (sort_key f ns))"
proof -
  have "sorted (map f (sort_key f ns))" by (rule sorted_sort_key)
  moreover have "f n \<in> set (map f (sort_key f ns))" using assms by simp
  ultimately have le: "f n \<le> last (map f (sort_key f ns))" by (rule sorted_le_last)
  have "sort_key f ns \<noteq> []"
    using assms by (metis empty_iff empty_set set_sort)
  then show ?thesis using le by (simp add: last_map)
qed

lemma assignHues_props:
  assumes perm: "\<forall>xs. mset (shuffle xs) = mset xs"
  shows "map hue (assignHues shuffle sz ns)
           = map (\<lambda>i. 360 * real i / real (length ns)) [0 ..< length ns]"
    and "mset (map clusterId (assignHues shuffle sz ns)) = mset (map clusterId ns)"
    and "n \<in> set ns \<Longrightarrow> sz (clusterId n) \<le> sz (clusterId (hd (assignHues shuffle sz ns)))"
proof -
  let ?sorted = "rev (sort_key (\<lambda>n. sz (clusterId n)) ns)"
  let ?sh = "take 2 ?sorted @ shuffle (drop 2 ?sorted)"
  let ?S = "swapMiddle ?sh"
  have len_shuffle: "length (shuffle xs) = length xs" for xs
    using perm [rule_format, of xs] by (metis size_mset)
  have len: "length ?S = length ns" by (simp add: len_shuffle)
  have "mset ?sh = mset (take 2 ?sorted) + mset (drop 2 ?sorted)"
    by (simp add: perm)
  also have "\<dots> = mset ?sorted" by (metis append_take_drop_id mset_append)
  also have "\<dots> = mset ns" by (simp only: mset_rev mset_sort)
  finally have m: "mset ?S = mset ns" by (simp add: mset_swapMiddle)
  have A: "assignHues shuffle sz ns =
      map (\<lambda>(i, n). n\<lparr>hue := jsRem (360 * real i / real (length ns)) 360\<rparr>) (enumerate 0 ?S)"
    by (simp add: assignHues_def Let_def len del: length_swapMiddle)
  have "map hue (assignHues shuffle sz ns)
      = map (\<lambda>i. jsRem (360 * real i / real (length ns)) 360) [0 ..< length ns]"
    unfolding A map_hue_enumerate len ..
  also have "\<dots> = map (\<lambda>i. 360 * real i / real (length ns)) [0 ..< length ns]"
    by (rule map_cong) (simp_all add: hue_in_turn)
  finally show "map hue (assignHues shuffle sz ns)
           = map (\<lambda>i. 360 * real i / real (length ns)) [0 ..< length ns]" .
  have "mset (map clusterId (assignHues shuffle sz ns)) = mset (map clusterId ?S)"
    unfolding A map_clusterId_enumerate ..
  also have "\<dots> = mset (map clusterId ns)"
    using m by (metis mset_map)
  finally show "mset (map clusterId (assignHues shuffle sz ns)) = mset (map clusterId ns)" .
  show "sz (clusterId n) \<le> sz (clusterId (hd (assignHues shuffle sz ns)))" if n: "n \<in> set ns"
  proof -
    have ne: "?sorted \<noteq> []"
      using n by (metis empty_iff empty_set set_sort set_rev)
    then have "hd ?sh = hd ?sorted" by (cases ?sorted) simp_all
    then have h: "hd ?S = last (sort_key (\<lambda>n. sz (clusterId n)) ns)"
      using ne by (simp add: hd_swapMiddle hd_rev)
    have "length ?S \<noteq> 0" unfolding len using n by auto
    then have "?S \<noteq> []" by (simp del: length_swapMiddle)
    then have "hd (assignHues shuffle sz ns) = (hd ?S)\<lparr>hue := jsRem (360 * real 0 / real (length ns)) 360\<rparr>"
      unfolding A by (cases ?S) (simp_all add: enumerate_simps)
    then have "clusterId (hd (assignHues shuffle sz ns)) = clusterId (hd ?S)" by simp
    then show ?thesis
      unfolding h using largest_last [OF n, of "\<lambda>n. sz (clusterId n)"] by simp
  qed
qed

section \<open>Claims about the metadata similarity\<close>

text \<open>
  C1 (as amended). The claim says that the score is symmetric for all pairs, also when
  exactly one item lists the other among its relations. The relation block only looks at
  the relations of its first argument, and the Jaccard numerator counts the first list
  with its repetitions, so the score is not symmetric in general. It is symmetric when the
  attribute lists of both items are duplicate-free and the relation is mutual or absent:
  the other item is in the relations of the one exactly when the one is in the relations
  of the other.
\<close>

theorem computeAnimeSimilarity_symmetric_if_relation_mutual:
  assumes "duplicateFree a" "duplicateFree b"
    and "(anime_id b \<in> set (relations a)) = (anime_id a \<in> set (relations b))"
  shows "computeAnimeSimilarity a b = computeAnimeSimilarity b a"
proof -
  have "similarityParts a b = similarityParts b a"
    using assms
    by (simp add: similarityParts_def duplicateFree_def genreStep_commute [of a b]
        tagStep_commute [of a b] studioStep_commute [of a b] staffStep_commute [of a b]
        formatStep_commute [of a b] seasonStep_commute [of a b] relationStep_commute [of a b])
  then show ?thesis by (simp add: computeAnimeSimilarity_def)
qed

theorem computeAnimeSimilarity_symmetric_witness:
  "duplicateFree symA \<and> duplicateFree symB
   \<and> anime_id symB \<in> set (relations symA) \<and> anime_id symA \<in> set (relations symB)
   \<and> computeAnimeSimilarity symA symB = 109 / 216
   \<and> computeAnimeSimilarity symB symA = 109 / 216"
proof -
  have h1: "duplicateFree symA" by (simp add: duplicateFree_def symA_def)
  have h2: "duplicateFree symB" by (simp add: duplicateFree_def symB_def)
  have h3: "anime_id symB \<in> set (relations symA)" "anime_id symA \<in> set (relations symB)"
    by (simp_all add: symA_def symB_def)
  have h4: "(anime_id symB \<in> set (relations symA)) = (anime_id symA \<in> set (relations symB))"
    using h3 by simp
  have v: "computeAnimeSimilarity symA symB = 109 / 216"
    by (simp add: computeAnimeSimilarity_def step_defs symA_def symB_def Let_def)
  show ?thesis
    using h1 h2 h3 v computeAnimeSimilarity_symmetric_if_relation_mutual [OF h1 h2 h4]
    by simp
qed

text \<open>
  C1 as stated fails. Item 1 lists item 2 as a relation and item 2 lists nothing: the
  score is 1 in one direction and 0 in the other. With a repeated genre on one side the
  two directions give 2 and 1.
\<close>

theorem computeAnimeSimilarity_not_symmetric:
  "computeAnimeSimilarity relA relB = 1 \<and> computeAnimeSimilarity relB relA = 0 \<and>
   computeAnimeSimilarity dupA dupB = 2 \<and> computeAnimeSimilarity dupB dupA = 1"
  by (simp add: computeAnimeSimilarity_def step_defs sample_defs)

text \<open>
  C2. For items whose genre, tag, studio and staff collections are duplicate-free, the
  similarity score is at most 1, and so is the weight of every edge that
  \<^verbatim>\<open>computeSimilarities\<close> emits.
\<close>

theorem metadata_score_at_most_one:
  "(duplicateFree a \<and> duplicateFree b \<longrightarrow> computeAnimeSimilarity a b \<le> 1) \<and>
   ((\<forall>x\<in>set animeList. duplicateFree x) \<longrightarrow>
      (\<forall>e\<in>set (computeSimilarities animeList). weight e \<le> 1))"
proof (intro conjI impI ballI)
  assume "duplicateFree a \<and> duplicateFree b"
  then show "computeAnimeSimilarity a b \<le> 1"
    by (simp add: duplicateFree_def computeAnimeSimilarity_le_1)
next
  fix e
  assume all: "\<forall>x\<in>set animeList. duplicateFree x"
    and e: "e \<in> set (computeSimilarities animeList)"
  from e obtain x y where "x \<in> set animeList" "weight e = computeAnimeSimilarity x y"
    unfolding computeSimilarities_def using computeSimilaritiesAt_weight by blast
  with all show "weight e \<le> 1"
    by (simp add: duplicateFree_def computeAnimeSimilarity_le_1)
qed

theorem metadata_score_at_most_one_witness:
  "duplicateFree symA \<and> duplicateFree symB \<and> duplicateFree symC
   \<and> computeAnimeSimilarity symA symB \<le> 1
   \<and> computeSimilarities [symA, symB, symC] \<noteq> []
   \<and> list_all (\<lambda>e. weight e \<le> 1) (computeSimilarities [symA, symB, symC])"
proof -
  have h1: "duplicateFree symA" by (simp add: duplicateFree_def symA_def)
  have h2: "duplicateFree symB" by (simp add: duplicateFree_def symB_def)
  have h3: "duplicateFree symC" by (simp add: duplicateFree_def symC_def emptyItem_def)
  have hall: "\<forall>x\<in>set [symA, symB, symC]. duplicateFree x"
    using h1 h2 h3 by simp
  have ne: "computeSimilarities [symA, symB, symC] \<noteq> []"
    by (simp add: computeSimilarities_def MIN_SIMILARITY_def computeAnimeSimilarity_def
        step_defs sample_defs Let_def)
  from metadata_score_at_most_one [of symA symB "[symA, symB, symC]"] h1 h2 hall
  have "computeAnimeSimilarity symA symB \<le> 1"
    and "\<forall>e\<in>set (computeSimilarities [symA, symB, symC]). weight e \<le> 1"
    by blast+
  then show ?thesis
    using h1 h2 h3 ne by (simp add: list_all_iff)
qed

text \<open>
  C7 (as amended). The claim says that the season factor applies whenever both items
  carry a season year, so that its weight 0.3 is always in the denominator for such a
  pair. The source applies the factor only inside the guard \<^verbatim>\<open>yearDiff <= 2\<close>. With
  \<open>(s, w)\<close> the numerator and denominator of the pair without the season year of the
  first item: when both items carry a (non-zero) season year and the years differ by at
  most 2, the numerator grows by \<open>(3 - diff) / 3 * 0.3\<close> and the denominator by \<open>0.3\<close>;
  when the years differ by more than 2, or a season year is missing, the factor is left
  out of both.
\<close>

theorem season_factor_window:
  assumes "similarityParts (a\<lparr>seasonYear := None\<rparr>) b = (s, w)"
  shows "(seasonYear a = Some ya \<and> seasonYear b = Some yb \<and> ya \<noteq> 0 \<and> yb \<noteq> 0
            \<and> \<bar>ya - yb\<bar> \<le> 2 \<longrightarrow>
          similarityParts a b = (s + (3 - real_of_int \<bar>ya - yb\<bar>) / 3 * (3 / 10), w + 3 / 10))
       \<and> (seasonYear a = Some ya \<and> seasonYear b = Some yb \<and> \<bar>ya - yb\<bar> > 2 \<longrightarrow>
          similarityParts a b = (s, w))
       \<and> (seasonYear a = None \<or> seasonYear b = None \<longrightarrow> similarityParts a b = (s, w))"
proof -
  obtain s0 w0 where x: "formatStep a b (staffStep a b (studioStep a b (tagStep a b
      (genreStep a b (0, 0))))) = (s0, w0)"
    by force
  have without: "relationStep a b (s0, w0) = (s, w)"
    using assms x
    by (simp add: similarityParts_def steps_ignore_seasonYear seasonStep_absent)
  have full: "similarityParts a b = relationStep a b (seasonStep a b (s0, w0))"
    using x by (simp add: similarityParts_def)
  have rel: "relationStep a b (s0 + x, w0 + y) = (s + x, w + y)" for x y
    using without by (auto simp: relationStep_def Let_def split: if_splits)
  have near: "seasonStep a b (s0, w0)
      = (s0 + (3 - real_of_int \<bar>ya - yb\<bar>) / 3 * (3 / 10), w0 + 3 / 10)"
    if "seasonYear a = Some ya \<and> seasonYear b = Some yb \<and> ya \<noteq> 0 \<and> yb \<noteq> 0
        \<and> \<bar>ya - yb\<bar> \<le> 2"
    using that by (simp add: seasonStep_def Let_def)
  have far: "seasonStep a b (s0, w0) = (s0, w0)"
    if "seasonYear a = Some ya \<and> seasonYear b = Some yb \<and> \<bar>ya - yb\<bar> > 2"
    using that by (simp add: seasonStep_def Let_def)
  have absent: "seasonStep a b (s0, w0) = (s0, w0)"
    if "seasonYear a = None \<or> seasonYear b = None"
    using that by (auto simp: seasonStep_def split: option.splits)
  show ?thesis
    unfolding full using near far absent rel without by simp
qed

theorem season_factor_window_witness:
  "similarityParts (symA\<lparr>seasonYear := None\<rparr>) symB = (21 / 4, 21 / 2)
   \<and> seasonYear symA = Some 2020 \<and> seasonYear symB = Some 2021
   \<and> similarityParts symA symB = (21 / 4 + 1 / 5, 21 / 2 + 3 / 10)
   \<and> similarityParts (farA\<lparr>seasonYear := None\<rparr>) farB = (3, 3)
   \<and> seasonYear farA = Some 2020 \<and> seasonYear farB = Some 2010
   \<and> similarityParts farA farB = (3, 3)"
proof -
  have h1: "similarityParts (symA\<lparr>seasonYear := None\<rparr>) symB = (21 / 4, 21 / 2)"
    by (simp add: step_defs symA_def symB_def Let_def)
  have y1: "seasonYear symA = Some 2020" "seasonYear symB = Some 2021"
    by (simp_all add: symA_def symB_def)
  have h2: "similarityParts (farA\<lparr>seasonYear := None\<rparr>) farB = (3, 3)"
    by (simp add: step_defs sample_defs Let_def)
  have y2: "seasonYear farA = Some 2020" "seasonYear farB = Some 2010"
    by (simp_all add: sample_defs)
  have "similarityParts symA symB = (21 / 4 + 1 / 5, 21 / 2 + 3 / 10)"
    using season_factor_window [OF h1, of 2020 2021] y1 by simp
  moreover have "similarityParts farA farB = (3, 3)"
    using season_factor_window [OF h2, of 2020 2010] y2 by simp
  ultimately show ?thesis using h1 h2 y1 y2 by simp
qed

text \<open>
  C7 as stated fails. Both items carry a season year (2020 and 2010) and share their only
  genre. The denominator is 3, the genre weight alone, not 3.3, and the score is 1.
\<close>

theorem season_factor_dropped_when_years_far_apart:
  "seasonYear farA = Some 2020 \<and> seasonYear farB = Some 2010
   \<and> similarityParts farA farB = (3, 3)
   \<and> snd (similarityParts farA farB)
       \<noteq> snd (similarityParts (farA\<lparr>seasonYear := None\<rparr>) farB) + 3 / 10
   \<and> computeAnimeSimilarity farA farB = 1"
  by (simp add: computeAnimeSimilarity_def step_defs sample_defs)

text \<open>
  C8. For a fixed item list, the edges emitted at a higher threshold are among the edges
  emitted at any lower threshold (they are exactly those of them whose weight reaches the
  higher threshold), so raising the threshold never increases the edge count.
\<close>

theorem raising_threshold_drops_edges:
  assumes "t1 \<le> t2"
  shows "set (computeSimilaritiesAt t2 animeList) \<subseteq> set (computeSimilaritiesAt t1 animeList)
       \<and> length (computeSimilaritiesAt t2 animeList) \<le> length (computeSimilaritiesAt t1 animeList)
       \<and> computeSimilaritiesAt t2 animeList
           = filter (\<lambda>e. weight e \<ge> t2) (computeSimilaritiesAt t1 animeList)"
  using computeSimilaritiesAt_filter [OF assms, of animeList] by simp

theorem raising_threshold_drops_edges_witness:
  "MIN_SIMILARITY \<le> 1 / 2
   \<and> computeSimilarities [symA, symB, symC]
       = [\<lparr>source = 1, target = 2, weight = 109 / 216\<rparr>,
          \<lparr>source = 1, target = 3, weight = 1 / 3\<rparr>,
          \<lparr>source = 2, target = 3, weight = 1 / 3\<rparr>]
   \<and> computeSimilaritiesAt (1 / 2) [symA, symB, symC]
       = [\<lparr>source = 1, target = 2, weight = 109 / 216\<rparr>]
   \<and> length (computeSimilaritiesAt (1 / 2) [symA, symB, symC])
       \<le> length (computeSimilaritiesAt MIN_SIMILARITY [symA, symB, symC])"
proof -
  have h: "MIN_SIMILARITY \<le> 1 / 2" by (simp add: MIN_SIMILARITY_def)
  have low: "computeSimilarities [symA, symB, symC]
       = [\<lparr>source = 1, target = 2, weight = 109 / 216\<rparr>,
          \<lparr>source = 1, target = 3, weight = 1 / 3\<rparr>,
          \<lparr>source = 2, target = 3, weight = 1 / 3\<rparr>]"
    by (simp add: computeSimilarities_def MIN_SIMILARITY_def computeAnimeSimilarity_def
        step_defs sample_defs Let_def)
  have low': "computeSimilaritiesAt MIN_SIMILARITY [symA, symB, symC]
       = [\<lparr>source = 1, target = 2, weight = 109 / 216\<rparr>,
          \<lparr>source = 1, target = 3, weight = 1 / 3\<rparr>,
          \<lparr>source = 2, target = 3, weight = 1 / 3\<rparr>]"
    using low by (simp only: computeSimilarities_def)
  note mono = raising_threshold_drops_edges [OF h, of "[symA, symB, symC]"]
  have "computeSimilaritiesAt (1 / 2) [symA, symB, symC]
       = filter (\<lambda>e. weight e \<ge> 1 / 2) (computeSimilaritiesAt MIN_SIMILARITY [symA, symB, symC])"
    using mono by blast
  then have high: "computeSimilaritiesAt (1 / 2) [symA, symB, symC]
       = [\<lparr>source = 1, target = 2, weight = 109 / 216\<rparr>]"
    unfolding low' by simp
  have len: "length (computeSimilaritiesAt (1 / 2) [symA, symB, symC])
       \<le> length (computeSimilaritiesAt MIN_SIMILARITY [symA, symB, symC])"
    using mono by blast
  show ?thesis
    using h low high len by blast
qed

text \<open>
  C9. The tag block drops every tag marked \<^verbatim>\<open>isMediaSpoiler\<close> on either item before the
  ratio is computed: the numerator and denominator of a pair are those of the pair with
  the spoiler tags removed, and the block adds the rank-weighted overlap of the remaining
  tags with weight 2.5. If all tags of one item are spoiler-marked, the block changes
  neither accumulator, and the pair scores as if that item had no tags.
\<close>

theorem spoiler_tags_ignored:
  "similarityParts a b =
     similarityParts (a\<lparr>tags := filter (\<lambda>t. \<not> isMediaSpoiler t) (tags a)\<rparr>)
                     (b\<lparr>tags := filter (\<lambda>t. \<not> isMediaSpoiler t) (tags b)\<rparr>)
   \<and> tagStep a b (s, w) =
       (let tagsA = filter (\<lambda>t. \<not> isMediaSpoiler t) (tags a);
            tagsB = filter (\<lambda>t. \<not> isMediaSpoiler t) (tags b)
        in if tagsA \<noteq> [] \<and> tagsB \<noteq> []
           then (s + tagSimilarity tagsA tagsB * (5 / 2), w + 5 / 2) else (s, w))
   \<and> ((\<forall>t\<in>set (tags a). isMediaSpoiler t) \<longrightarrow>
        tagStep a b (s, w) = (s, w)
        \<and> similarityParts a b = similarityParts (a\<lparr>tags := []\<rparr>) b
        \<and> computeAnimeSimilarity a b = computeAnimeSimilarity (a\<lparr>tags := []\<rparr>) b)
   \<and> ((\<forall>t\<in>set (tags b). isMediaSpoiler t) \<longrightarrow>
        tagStep a b (s, w) = (s, w)
        \<and> similarityParts a b = similarityParts a (b\<lparr>tags := []\<rparr>)
        \<and> computeAnimeSimilarity a b = computeAnimeSimilarity a (b\<lparr>tags := []\<rparr>))"
proof -
  have 1: "similarityParts a b =
     similarityParts (a\<lparr>tags := filter (\<lambda>t. \<not> isMediaSpoiler t) (tags a)\<rparr>)
                     (b\<lparr>tags := filter (\<lambda>t. \<not> isMediaSpoiler t) (tags b)\<rparr>)"
    by (simp add: similarityParts_def steps_ignore_tags tagStep_strip)
  have 2: "similarityParts a b = similarityParts (a\<lparr>tags := []\<rparr>) b"
    if "\<forall>t\<in>set (tags a). isMediaSpoiler t"
    using that
    by (simp add: similarityParts_def steps_ignore_tags tagStep_all_spoilers tagStep_no_tags)
  have 3: "similarityParts a b = similarityParts a (b\<lparr>tags := []\<rparr>)"
    if "\<forall>t\<in>set (tags b). isMediaSpoiler t"
    using that
    by (simp add: similarityParts_def steps_ignore_tags tagStep_all_spoilers tagStep_no_tags)
  show ?thesis
    using 1 2 3 tagStep_visible [of a b s w] tagStep_all_spoilers [of a b "(s, w)"]
    by (simp add: computeAnimeSimilarity_def)
qed

theorem spoiler_tags_ignored_witness:
  "list_all isMediaSpoiler (tags symC) \<and> tags symC \<noteq> []
   \<and> similarityParts symB symC = (1, 3)
   \<and> similarityParts symB (symC\<lparr>tags := []\<rparr>) = (1, 3)
   \<and> tagStep symB symC (1, 3) = (1, 3)
   \<and> tagStep symA symB (1, 3) = (1 + 4 / 15 * (5 / 2), 3 + 5 / 2)"
proof -
  have h: "\<forall>t\<in>set (tags symC). isMediaSpoiler t"
    by (simp add: sample_defs)
  have ne: "tags symC \<noteq> []"
    by (simp add: sample_defs)
  have v: "similarityParts symB (symC\<lparr>tags := []\<rparr>) = (1, 3)"
    by (simp add: step_defs sample_defs Let_def)
  have vis: "filter (\<lambda>t. \<not> isMediaSpoiler t) (tags symA)
       = [\<lparr>name = ''Revenge'', rank = 80, isMediaSpoiler = False\<rparr>]"
    by (simp add: sample_defs)
  have visB: "filter (\<lambda>t. \<not> isMediaSpoiler t) (tags symB)
       = [\<lparr>name = ''Revenge'', rank = 40, isMediaSpoiler = False\<rparr>,
          \<lparr>name = ''Detective'', rank = 70, isMediaSpoiler = False\<rparr>]"
    by (simp add: sample_defs)
  have ts: "tagSimilarity [\<lparr>name = ''Revenge'', rank = 80, isMediaSpoiler = False\<rparr>]
       [\<lparr>name = ''Revenge'', rank = 40, isMediaSpoiler = False\<rparr>,
        \<lparr>name = ''Detective'', rank = 70, isMediaSpoiler = False\<rparr>] = 4 / 15"
    by (simp add: step_defs Let_def)
  note BC = spoiler_tags_ignored [of symB symC 1 3]
  have bc1: "tagStep symB symC (1, 3) = (1, 3)"
    using BC h by blast
  have bc2: "similarityParts symB symC = similarityParts symB (symC\<lparr>tags := []\<rparr>)"
    using BC h by blast
  note AB = spoiler_tags_ignored [of symA symB 1 3]
  have "tagStep symA symB (1, 3) =
       (let tagsA = filter (\<lambda>t. \<not> isMediaSpoiler t) (tags symA);
            tagsB = filter (\<lambda>t. \<not> isMediaSpoiler t) (tags symB)
        in if tagsA \<noteq> [] \<and> tagsB \<noteq> []
           then (1 + tagSimilarity tagsA tagsB * (5 / 2), 3 + 5 / 2) else (1, 3))"
    using AB by blast
  then have ab: "tagStep symA symB (1, 3) = (1 + 4 / 15 * (5 / 2), 3 + 5 / 2)"
    unfolding vis visB Let_def ts by simp
  show ?thesis
    using h ne v bc1 bc2 ab by (simp add: list_all_iff)
qed

section \<open>Claims about the genre communities\<close>

text \<open>
  C5 (as amended). The claim says that an item goes to the community of the first genre
  in the order of the priority list that the item possesses. The source walks the item's
  own genre list and stops at the first genre that is in the priority list. So: an item
  goes to the community of the first genre, in the order of its own genre list, that is
  one of the fifteen canonical genres, and the community id is the position of that genre
  in the canonical list; an item with no such genre, or with no genres, goes to the
  default community 15. The community written to a node is a function of its genre list.
\<close>

theorem nodeCommunity_first_own_genre:
  "(find (\<lambda>g. g \<in> set primaryGenres) gs = Some g \<longrightarrow>
      nodeCommunity gs < length primaryGenres \<and> primaryGenres ! nodeCommunity gs = g)
   \<and> (find (\<lambda>g. g \<in> set primaryGenres) gs = None \<longrightarrow> nodeCommunity gs = 15)
   \<and> map community (nodes (detectCommunities gr))
       = map (\<lambda>n. Some (nodeCommunity (node_genres n))) (nodes gr)"
proof -
  have f: "(\<lambda>g. \<exists>y. genreToCommunity g = Some y) = (\<lambda>g. g \<in> set primaryGenres)"
  proof (rule ext)
    fix g
    show "(\<exists>y. genreToCommunity g = Some y) = (g \<in> set primaryGenres)"
      using genreToCommunity_None [of g] by (cases "genreToCommunity g") auto
  qed
  have 1: "nodeCommunity gs < length primaryGenres \<and> primaryGenres ! nodeCommunity gs = g"
    if "find (\<lambda>g. g \<in> set primaryGenres) gs = Some g"
  proof -
    from that have "g \<in> set primaryGenres" "gs \<noteq> []"
      by (auto simp: find_Some_iff)
    then obtain c where c: "genreToCommunity g = Some c"
      using genreToCommunity_None [of g] by auto
    then have "nodeCommunity gs = c"
      using that \<open>gs \<noteq> []\<close> by (simp add: nodeCommunity_def firstPrimaryGenre_find f)
    with c show ?thesis by (simp add: genreToCommunity_Some)
  qed
  have 2: "nodeCommunity gs = 15" if "find (\<lambda>g. g \<in> set primaryGenres) gs = None"
    using that by (simp add: nodeCommunity_def firstPrimaryGenre_find f defaultCommunity_eq)
  have 3: "map community (nodes (detectCommunities gr))
       = map (\<lambda>n. Some (nodeCommunity (node_genres n))) (nodes gr)"
    by (simp add: detectCommunities_def comp_def)
  show ?thesis using 1 2 3 by blast
qed

theorem nodeCommunity_first_own_genre_witness:
  "find (\<lambda>g. g \<in> set primaryGenres) [''Music'', ''Comedy'', ''Action''] = Some ''Comedy''
   \<and> nodeCommunity [''Music'', ''Comedy'', ''Action''] = 2
   \<and> primaryGenres ! 2 = ''Comedy''
   \<and> find (\<lambda>g. g \<in> set primaryGenres) [''Music'', ''Ecchi''] = None
   \<and> nodeCommunity [''Music'', ''Ecchi''] = 15
   \<and> nodeCommunity [] = 15"
proof -
  have a: "find (\<lambda>g. g \<in> set primaryGenres) [''Music'', ''Comedy'', ''Action''] = Some ''Comedy''"
    by (simp add: primaryGenres_def)
  have b: "find (\<lambda>g. g \<in> set primaryGenres) [''Music'', ''Ecchi''] = None"
    by (simp add: primaryGenres_def)
  have c: "find (\<lambda>g. g \<in> set primaryGenres) [] = None"
    by simp
  have v: "nodeCommunity [''Music'', ''Comedy'', ''Action''] = 2"
    by (simp add: nodeCommunity_def genreToCommunity_def primaryGenres_def)
  have p: "primaryGenres ! 2 = ''Comedy''"
    using nodeCommunity_first_own_genre [of "[''Music'', ''Comedy'', ''Action'']" "''Comedy''"] a v
    by simp
  have d: "nodeCommunity [''Music'', ''Ecchi''] = 15"
    using nodeCommunity_first_own_genre [of "[''Music'', ''Ecchi'']"] b by blast
  have e: "nodeCommunity [] = 15"
    using nodeCommunity_first_own_genre [of "[]"] c by blast
  show ?thesis using a b v p d e by blast
qed

text \<open>
  C5 as stated fails. For the genre list Comedy, Action the first genre in priority order
  that the item possesses is Action (community 0); the source assigns community 2, that
  of Comedy.
\<close>

theorem nodeCommunity_not_priority_order:
  "find (\<lambda>g. g \<in> set [''Comedy'', ''Action'']) primaryGenres = Some ''Action''
   \<and> genreToCommunity ''Action'' = Some 0
   \<and> genreToCommunity ''Comedy'' = Some 2
   \<and> nodeCommunity [''Comedy'', ''Action''] = 2"
  by (simp add: nodeCommunity_def genreToCommunity_def primaryGenres_def)

section \<open>Claims about the emitted graph\<close>

text \<open>
  C10. In metadata mode \<^verbatim>\<open>buildGraph\<close> keeps only the nodes whose id is the source or target
  of an edge, for any edge list and so for the one \<^verbatim>\<open>computeSimilarities\<close> returns; in
  recommendation mode \<^verbatim>\<open>buildRecommendationGraph\<close>, when it returns a graph, has dropped
  every node of degree 0. In both modes every node of the graph handed on to community
  detection and layout is the source or the target of at least one of its edges.
\<close>

theorem emitted_nodes_have_edges:
  "(\<forall>n\<in>set (nodes (buildGraph animeList es)).
      \<exists>e\<in>set (edges (buildGraph animeList es)). source e = node_id n \<or> target e = node_id n)
   \<and> (\<forall>n\<in>set (nodes (buildGraph animeList (computeSimilarities animeList))).
      \<exists>e\<in>set (computeSimilarities animeList). source e = node_id n \<or> target e = node_id n)
   \<and> (\<forall>g. buildRecommendationGraph recList = Some g \<longrightarrow>
        (\<forall>n\<in>set (g_nodes g). \<exists>e\<in>set (g_edges g). source e = n \<or> target e = n))"
proof (intro conjI allI impI ballI)
  fix n
  assume "n \<in> set (nodes (buildGraph animeList es))"
  then show "\<exists>e\<in>set (edges (buildGraph animeList es)). source e = node_id n \<or> target e = node_id n"
    by (rule buildGraph_nodes_have_edges)
next
  fix n
  assume "n \<in> set (nodes (buildGraph animeList (computeSimilarities animeList)))"
  from buildGraph_nodes_have_edges [OF this]
  show "\<exists>e\<in>set (computeSimilarities animeList). source e = node_id n \<or> target e = node_id n"
    by (simp add: buildGraph_def)
next
  fix g n
  assume "buildRecommendationGraph recList = Some g" "n \<in> set (g_nodes g)"
  then show "\<exists>e\<in>set (g_edges g). source e = n \<or> target e = n"
    by (rule buildRecommendationGraph_nodes_have_edges)
qed

theorem emitted_nodes_have_edges_witness:
  "buildRecommendationGraph recItems
     = Some \<lparr>g_nodes = [1, 2], g_edges = [\<lparr>source = 1, target = 2, weight = 5 / 2\<rparr>]\<rparr>
   \<and> list_all (\<lambda>n. list_ex (\<lambda>e. source e = n \<or> target e = n)
                   [\<lparr>source = 1, target = 2, weight = 5 / 2\<rparr>]) [1, 2]
   \<and> nodes (buildGraph [symA, symB, symC] (computeSimilaritiesAt (1 / 2) [symA, symB, symC]))
       = [toNode symA, toNode symB]
   \<and> list_all (\<lambda>n. list_ex (\<lambda>e. source e = node_id n \<or> target e = node_id n)
                   (computeSimilaritiesAt (1 / 2) [symA, symB, symC]))
        [toNode symA, toNode symB]"
proof -
  let ?es = "computeSimilaritiesAt (1 / 2) [symA, symB, symC]"
  let ?g = "\<lparr>g_nodes = [1, 2], g_edges = [\<lparr>source = 1, target = 2, weight = 5 / 2\<rparr>]\<rparr>"
  note T = emitted_nodes_have_edges [of "[symA, symB, symC]" ?es recItems]
  have "\<forall>n\<in>set (g_nodes ?g). \<exists>e\<in>set (g_edges ?g). source e = n \<or> target e = n"
    using T recItems_graph by blast
  then have a: "list_all (\<lambda>n. list_ex (\<lambda>e. source e = n \<or> target e = n)
                   [\<lparr>source = 1, target = 2, weight = 5 / 2\<rparr>]) [1, 2]"
    by (simp add: list_all_iff list_ex_iff)
  have n: "nodes (buildGraph [symA, symB, symC] ?es) = [toNode symA, toNode symB]"
    by (simp only: sample_graph graph.select_convs)
  have e: "edges (buildGraph [symA, symB, symC] ?es) = ?es"
    by (simp only: buildGraph_def Let_def graph.select_convs)
  have "\<forall>n\<in>set (nodes (buildGraph [symA, symB, symC] ?es)).
      \<exists>e\<in>set (edges (buildGraph [symA, symB, symC] ?es)). source e = node_id n \<or> target e = node_id n"
    using T by blast
  then have b: "list_all (\<lambda>n. list_ex (\<lambda>e. source e = node_id n \<or> target e = node_id n) ?es)
        [toNode symA, toNode symB]"
    unfolding n e by (simp only: list_all_iff list_ex_iff)
  show ?thesis using recItems_graph a n b by blast
qed

section \<open>Claims about the serializer\<close>

text \<open>
  C3 (as amended). The claim says that every serialized coordinate is an integer in
  \<open>[0, worldScale]\<close> for every input, and that an axis whose bounding-box range is zero
  yields 0. The source divides by the range without a test. For every node and every axis
  on which two nodes of the graph differ, the serialized coordinate is an integer between
  0 and 20000.
\<close>

theorem serialized_coordinates:
  assumes "n \<in> set ns"
  shows "((\<exists>a\<in>set ns. \<exists>b\<in>set ns. pos_x a \<noteq> pos_x b) \<longrightarrow> inWorld (outputX ns n))
       \<and> ((\<exists>a\<in>set ns. \<exists>b\<in>set ns. pos_y a \<noteq> pos_y b) \<longrightarrow> inWorld (outputY ns n))"
proof (intro conjI impI)
  assume "\<exists>a\<in>set ns. \<exists>b\<in>set ns. pos_x a \<noteq> pos_x b"
  then obtain a b where "a \<in> set ns" "b \<in> set ns" "pos_x a \<noteq> pos_x b" by blast
  then have "Min (pos_x ` set ns) < Max (pos_x ` set ns)" by (rule axis_spread)
  then show "inWorld (outputX ns n)"
    unfolding outputX_eq [OF assms]
    by (rule axis_in_world [OF axis_bounds [OF assms]])
next
  assume "\<exists>a\<in>set ns. \<exists>b\<in>set ns. pos_y a \<noteq> pos_y b"
  then obtain a b where "a \<in> set ns" "b \<in> set ns" "pos_y a \<noteq> pos_y b" by blast
  then have "Min (pos_y ` set ns) < Max (pos_y ` set ns)" by (rule axis_spread)
  then show "inWorld (outputY ns n)"
    unfolding outputY_eq [OF assms]
    by (rule axis_in_world [OF axis_bounds [OF assms]])
qed

theorem serialized_coordinates_witness:
  "\<lparr>pos_id = 3, pos_x = 0, pos_y = 8\<rparr> \<in> set spread
   \<and> outputNodes spread
       = [(1, Num 0, Num 0), (2, Num 20000, Num 20000), (3, Num 15000, Num 10000)]
   \<and> inWorld (outputX spread \<lparr>pos_id = 3, pos_x = 0, pos_y = 8\<rparr>)
   \<and> inWorld (outputY spread \<lparr>pos_id = 3, pos_x = 0, pos_y = 8\<rparr>)
   \<and> \<lparr>pos_id = 1, pos_x = 5, pos_y = 7\<rparr> \<in> set collapsed
   \<and> inWorld (outputY collapsed \<lparr>pos_id = 1, pos_x = 5, pos_y = 7\<rparr>)"
proof -
  let ?n = "\<lparr>pos_id = 3, pos_x = 0, pos_y = 8\<rparr>"
  let ?m = "\<lparr>pos_id = 1, pos_x = 5, pos_y = 7\<rparr>"
  have n: "?n \<in> set spread" by (simp add: spread_def)
  have m: "?m \<in> set collapsed" by (simp add: collapsed_def)
  have dx: "\<exists>a\<in>set spread. \<exists>b\<in>set spread. pos_x a \<noteq> pos_x b"
    by (force simp: spread_def)
  have dy: "\<exists>a\<in>set spread. \<exists>b\<in>set spread. pos_y a \<noteq> pos_y b"
    by (force simp: spread_def)
  have cy: "\<exists>a\<in>set collapsed. \<exists>b\<in>set collapsed. pos_y a \<noteq> pos_y b"
    by (force simp: collapsed_def)
  note S = serialized_coordinates [OF n]
  note C = serialized_coordinates [OF m]
  have 1: "inWorld (outputX spread ?n)" using S dx by blast
  have 2: "inWorld (outputY spread ?n)" using S dy by blast
  have 3: "inWorld (outputY collapsed ?m)" using C cy by blast
  show ?thesis using n m spread_output 1 2 3 by blast
qed

text \<open>
  C3 as stated fails. A graph of a single node: both ranges are zero and both serialized
  coordinates are \<^verbatim>\<open>NaN\<close>, not the integer 0. Two nodes with the same \<open>x\<close>: the range of
  that axis is zero and the serialized \<open>x\<close> of both is \<^verbatim>\<open>NaN\<close>.
\<close>

theorem zero_range_axis_gives_NaN:
  "outputNodes single = [(1, NaN, NaN)]
   \<and> outputNodes collapsed = [(1, NaN, Num 0), (2, NaN, Num 20000)]
   \<and> rangeX collapsed = Num 0
   \<and> \<not> inWorld NaN"
proof -
  have "outputNodes single = [(1, NaN, NaN)]"
    by (simp add: outputNodes_def outputX_def outputY_def rangeX_def rangeY_def minX_def
        maxX_def minY_def maxY_def single_def)
  moreover have "rangeX collapsed = Num 0"
    by (simp add: rangeX_def minX_def maxX_def collapsed_def)
  moreover have "\<not> inWorld NaN"
    by (simp add: inWorld_def)
  ultimately show ?thesis
    using collapsed_output by blast
qed

section \<open>Claims about label propagation\<close>

text \<open>
  C6 (as amended). The claim says that a node whose best weight is tied between its
  current label and another label keeps its current label. The source starts from
  \<^verbatim>\<open>maxWeight = 0\<close> with the current label and replaces the best label only on a strictly
  larger weight, walking the weight table in insertion order: a tie goes to the label that
  was inserted first, whether or not it is the current one. So, for a node \<open>n\<close> with a
  non-empty neighbour list: the weight table holds, for every label carried by a
  neighbour, the total weight of the edges to the neighbours with that label, in the
  order in which the labels first occur among the neighbours; the node takes the first
  label of the table that reaches the largest total weight whenever some total is
  positive, and keeps its label when none is. The loop stops after the first sweep that
  changes no label (the labels are then a fixed point of the sweep), it continues after
  a sweep that changed a label, and it runs at most 10 sweeps; on a graph whose edges
  join nodes of the graph it returns.
\<close>

theorem label_propagation_update_and_loop:
  assumes "adj n = Some nbrs" "nbrs \<noteq> []"
    and "findBest (communityWeights c nbrs) (0, c n) = (m, b)"
  shows "updateNode adj n (c, ch) = Some (c(n := b), ch \<or> b \<noteq> c n)
       \<and> map fst (communityWeights c nbrs) = jsSet (map (\<lambda>(nid, w). c nid) nbrs)
       \<and> (\<forall>(l, w)\<in>set (communityWeights c nbrs). w = labelWeight c nbrs l \<and> w \<le> m)
       \<and> ((\<exists>(l, w)\<in>set (communityWeights c nbrs). w > 0) \<longrightarrow>
            firstMaximal (communityWeights c nbrs) b m)
       \<and> ((\<forall>(l, w)\<in>set (communityWeights c nbrs). w \<le> 0) \<longrightarrow> b = c n)
       \<and> (it < maxIterations \<and> sweep adj ids (cs, False) = Some (ct, False) \<longrightarrow>
            ct = cs \<and> labelLoop adj ids (cs, True, it) = Some (cs, False, it + 1))
       \<and> (it < maxIterations \<and> sweep adj ids (cs, False) = Some (ct, True) \<longrightarrow>
            labelLoop adj ids (cs, True, it) = labelLoop adj ids (ct, True, it + 1))
       \<and> ((\<forall>e\<in>set es. source e \<in> set ids \<and> target e \<in> set ids) \<longrightarrow>
            (\<exists>cf chf itf. propagateLabels ids es = Some (cf, chf, itf) \<and> itf \<le> 10
               \<and> (\<not> chf \<or> itf = 10)
               \<and> (\<not> chf \<longrightarrow> (\<forall>adj'. addEdges es (initAdjacency ids) = Some adj' \<longrightarrow>
                      sweep adj' ids (cf, False) = Some (cf, False)))))"
proof (intro conjI impI)
  show "updateNode adj n (c, ch) = Some (c(n := b), ch \<or> b \<noteq> c n)"
    using assms by (rule updateNode_result)
  show "map fst (communityWeights c nbrs) = jsSet (map (\<lambda>(nid, w). c nid) nbrs)"
    by (rule communityWeights_keys)
  show "\<forall>(l, w)\<in>set (communityWeights c nbrs). w = labelWeight c nbrs l \<and> w \<le> m"
    using findBest_max [OF assms(3)] communityWeights_entry [of _ _ c nbrs] by fastforce
  show "firstMaximal (communityWeights c nbrs) b m"
    if "\<exists>(l, w)\<in>set (communityWeights c nbrs). w > 0"
    using assms(3) that by (rule findBest_first)
  show "b = c n" if "\<forall>(l, w)\<in>set (communityWeights c nbrs). w \<le> 0"
    using findBest_keep [OF that, of "c n"] assms(3) by simp
next
  assume a: "it < maxIterations \<and> sweep adj ids (cs, False) = Some (ct, False)"
  then have eq: "ct = cs" using sweep_unchanged [of adj ids cs False ct] by simp
  have "labelLoop adj ids (cs, True, it) = labelLoop adj ids (ct, False, it + 1)"
    using a by (intro labelLoop_step) simp_all
  also have "\<dots> = Some (ct, False, it + 1)"
    by (rule labelLoop_stop) simp
  finally show "ct = cs" and "labelLoop adj ids (cs, True, it) = Some (cs, False, it + 1)"
    using eq by simp_all
next
  assume "it < maxIterations \<and> sweep adj ids (cs, False) = Some (ct, True)"
  then show "labelLoop adj ids (cs, True, it) = labelLoop adj ids (ct, True, it + 1)"
    by (intro labelLoop_step) simp_all
next
  assume ok: "\<forall>e\<in>set es. source e \<in> set ids \<and> target e \<in> set ids"
  from propagateLabels_total [OF ok] obtain cf chf itf where
    r: "propagateLabels ids es = Some (cf, chf, itf)" "itf \<le> maxIterations"
       "\<not> chf \<or> itf = maxIterations"
    by blast
  have fp: "sweep adj' ids (cf, False) = Some (cf, False)"
    if "\<not> chf" "addEdges es (initAdjacency ids) = Some adj'" for adj'
  proof -
    from r(1) that have l: "labelLoop adj' ids (initCommunities ids, True, 0) = Some (cf, False, itf)"
      by (simp add: propagateLabels_def)
    then show ?thesis by (rule labelLoop_fixed_point) (simp_all add: maxIterations_def)
  qed
  show "\<exists>cf chf itf. propagateLabels ids es = Some (cf, chf, itf) \<and> itf \<le> 10
               \<and> (\<not> chf \<or> itf = 10)
               \<and> (\<not> chf \<longrightarrow> (\<forall>adj'. addEdges es (initAdjacency ids) = Some adj' \<longrightarrow>
                      sweep adj' ids (cf, False) = Some (cf, False)))"
    using r fp unfolding maxIterations_def by blast
qed

lemmas chain_defs = chainIds_def chainEdges_def chainAdjacency_def chainLabels_def
  initAdjacency_def initCommunities_def pushNeighbor_def updateNode_def communityWeights_def
  maxIterations_def propagateLabels_def labelWeight_def

theorem label_propagation_update_and_loop_witness:
  "chainAdjacency 2 = Some [(3, 1 / 2), (1, 1 / 2)]
   \<and> findBest (communityWeights chainLabels [(3, 1 / 2), (1, 1 / 2)]) (0, chainLabels 2)
       = (1 / 2, Some 3)
   \<and> updateNode chainAdjacency 2 (chainLabels, False) = Some (chainLabels(2 := Some 3), True)
   \<and> firstMaximal (communityWeights chainLabels [(3, 1 / 2), (1, 1 / 2)]) (Some 3) (1 / 2)
   \<and> list_all (\<lambda>e. source e \<in> set chainIds \<and> target e \<in> set chainIds) chainEdges
   \<and> (case propagateLabels chainIds chainEdges of
         Some (cf, chf, itf) \<Rightarrow> map cf chainIds = [Some 3, Some 3, Some 3] \<and> \<not> chf \<and> itf = 3
       | None \<Rightarrow> False)"
proof -
  have a: "chainAdjacency 2 = Some [(3, 1 / 2), (1, 1 / 2)]"
    by (simp add: chainAdjacency_def)
  have ne: "[(3::nat, 1 / 2 :: real), (1, 1 / 2)] \<noteq> []" by simp
  have cw: "communityWeights chainLabels [(3, 1 / 2), (1, 1 / 2)] = [(Some 3, 1 / 2), (Some 2, 1 / 2)]"
    by (simp add: communityWeights_def chainLabels_def)
  have f: "findBest (communityWeights chainLabels [(3, 1 / 2), (1, 1 / 2)]) (0, chainLabels 2)
       = (1 / 2, Some 3)"
    unfolding cw by simp
  have ok: "\<forall>e\<in>set chainEdges. source e \<in> set chainIds \<and> target e \<in> set chainIds"
    by (simp add: chainEdges_def chainIds_def)
  have run: "case propagateLabels chainIds chainEdges of
         Some (cf, chf, itf) \<Rightarrow> map cf chainIds = [Some 3, Some 3, Some 3] \<and> \<not> chf \<and> itf = 3
       | None \<Rightarrow> False"
    by (simp add: chain_defs labelLoop.simps)
  note T = label_propagation_update_and_loop [where adj = chainAdjacency and n = 2
      and nbrs = "[(3, 1 / 2), (1, 1 / 2)]" and c = chainLabels and m = "1 / 2" and b = "Some 3"
      and ch = False and it = 0 and ids = chainIds and cs = chainLabels and ct = chainLabels
      and es = chainEdges, OF a ne f]
  have u: "updateNode chainAdjacency 2 (chainLabels, False) = Some (chainLabels(2 := Some 3), True)"
    using T by (simp add: chainLabels_def)
  have pos: "\<exists>(l, w)\<in>set (communityWeights chainLabels [(3, 1 / 2), (1, 1 / 2)]). w > 0"
    unfolding cw by simp
  have fm: "firstMaximal (communityWeights chainLabels [(3, 1 / 2), (1, 1 / 2)]) (Some 3) (1 / 2)"
    using T pos by blast
  show ?thesis
    using a f u fm ok run by (simp add: list_all_iff)
qed

text \<open>
  C6 as stated fails. In the chain 1 - 2 - 3 with equal weights, after node 1 has taken
  the label 2 in the first sweep, node 2 carries the label 2 and sees the labels 3 and 2
  with the same total weight. Its own label is tied for the best weight, and the node
  changes to the label 3.
\<close>

theorem tie_does_not_keep_current_label:
  "addEdges chainEdges (initAdjacency chainIds) = Some chainAdjacency
   \<and> (case sweep chainAdjacency [1] (initCommunities chainIds, False) of
         Some (c, ch) \<Rightarrow> map c chainIds = map chainLabels chainIds
       | None \<Rightarrow> False)
   \<and> chainLabels 2 = Some 2
   \<and> communityWeights chainLabels [(3, 1 / 2), (1, 1 / 2)] = [(Some 3, 1 / 2), (Some 2, 1 / 2)]
   \<and> labelWeight chainLabels [(3, 1 / 2), (1, 1 / 2)] (Some 2)
       = labelWeight chainLabels [(3, 1 / 2), (1, 1 / 2)] (Some 3)
   \<and> (case updateNode chainAdjacency 2 (chainLabels, False) of
         Some (c, ch) \<Rightarrow> c 2 = Some 3 \<and> ch
       | None \<Rightarrow> False)"
  by (simp add: chain_defs fun_eq_iff)

section \<open>Claims about the randomised steps\<close>

text \<open>
  C4 (as amended). The claim says that every randomised step of the layout accepts an
  explicit seed and is a deterministic function of it. The source has no seed:
  \<^verbatim>\<open>subdivideNodes\<close> calls \<^verbatim>\<open>Math.random()\<close> and \<^verbatim>\<open>assignHues\<close> calls \<^verbatim>\<open>_.shuffle\<close>, and
  neither takes an argument that fixes what these return. What holds is this. The
  subdivision is a function of its inputs and of the values it draws, two per child in
  the order of the children: two runs that see the same values for these draws return
  the same nodes. Whatever is drawn, the ids, clusters, tiers and hues of the children
  are the same, and for draws in \<open>[0, 1)\<close> every child lies within 25 units of its
  parent on each axis. The hue assignment is a function of its inputs and of the order
  the shuffle returns; whatever permutation that is, the hues are \<open>360 i / n\<close> for
  \<open>i = 0, ..., n - 1\<close> in the final order, every node receives one, and the node with
  hue 0 belongs to a largest community.
\<close>

theorem randomised_steps_follow_their_draws:
  "((\<forall>j < 2 * length (fst (subdivideNodes rnd t sz ps k)). rnd (k + j) = rnd' (k + j)) \<longrightarrow>
      subdivideNodes rnd t sz ps k = subdivideNodes rnd' t sz ps k)
   \<and> snd (subdivideNodes rnd t sz ps k) = k + 2 * length (fst (subdivideNodes rnd t sz ps k))
   \<and> map unplaced (fst (subdivideNodes rnd t sz ps k))
       = map unplaced (fst (subdivideNodes rnd' t sz ps k'))
   \<and> ((\<forall>j. 0 \<le> rnd j \<and> rnd j < 1) \<longrightarrow>
        (\<forall>c\<in>set (fst (subdivideNodes rnd t sz ps k)).
           \<exists>p\<in>set ps. \<bar>ln_x c - ln_x p\<bar> \<le> 25 \<and> \<bar>ln_y c - ln_y p\<bar> \<le> 25
                      \<and> hue c = hue p \<and> clusterId c = clusterId p \<and> tier c = t))
   \<and> ((\<forall>xs. mset (shuffle xs) = mset xs) \<longrightarrow>
        map hue (assignHues shuffle sz ns)
          = map (\<lambda>i. 360 * real i / real (length ns)) [0 ..< length ns]
        \<and> mset (map clusterId (assignHues shuffle sz ns)) = mset (map clusterId ns)
        \<and> (\<forall>n\<in>set ns. sz (clusterId n) \<le> sz (clusterId (hd (assignHues shuffle sz ns)))))"
proof (intro conjI impI ballI)
  assume "\<forall>j < 2 * length (fst (subdivideNodes rnd t sz ps k)). rnd (k + j) = rnd' (k + j)"
  then have "\<forall>j < 2 * sum_list (map (subgroups t sz) ps). rnd (k + j) = rnd' (k + j)"
    by (simp add: subdivideNodes_count)
  then show "subdivideNodes rnd t sz ps k = subdivideNodes rnd' t sz ps k"
    by (rule subdivideNodes_draws)
next
  show "snd (subdivideNodes rnd t sz ps k) = k + 2 * length (fst (subdivideNodes rnd t sz ps k))"
    by (simp add: subdivideNodes_count)
next
  show "map unplaced (fst (subdivideNodes rnd t sz ps k))
       = map unplaced (fst (subdivideNodes rnd' t sz ps k'))"
    by (rule subdivideNodes_unplaced)
next
  fix c
  assume "\<forall>j. 0 \<le> rnd j \<and> rnd j < 1" "c \<in> set (fst (subdivideNodes rnd t sz ps k))"
  then show "\<exists>p\<in>set ps. \<bar>ln_x c - ln_x p\<bar> \<le> 25 \<and> \<bar>ln_y c - ln_y p\<bar> \<le> 25
                      \<and> hue c = hue p \<and> clusterId c = clusterId p \<and> tier c = t"
    by (rule subdivideNodes_near)
next
  assume p: "\<forall>xs. mset (shuffle xs) = mset xs"
  show "map hue (assignHues shuffle sz ns)
          = map (\<lambda>i. 360 * real i / real (length ns)) [0 ..< length ns]"
    using p by (rule assignHues_props(1))
  show "mset (map clusterId (assignHues shuffle sz ns)) = mset (map clusterId ns)"
    using p by (rule assignHues_props(2))
  show "sz (clusterId n) \<le> sz (clusterId (hd (assignHues shuffle sz ns)))" if "n \<in> set ns" for n
    using p that by (rule assignHues_props(3))
qed

lemma subdivide_sample:
  "subdivideNodes (\<lambda>_. 0) 1 sizes7 [parent7] 0
     = ([\<lparr>ln_id = 7000, clusterId = 7, tier = 1, ln_x = 75, ln_y = - 65, hue = 120\<rparr>,
         \<lparr>ln_id = 7001, clusterId = 7, tier = 1, ln_x = 75, ln_y = - 65, hue = 120\<rparr>,
         \<lparr>ln_id = 7002, clusterId = 7, tier = 1, ln_x = 75, ln_y = - 65, hue = 120\<rparr>], 6)"
  by (simp add: subdivideNodes_Cons makeChildren_Suc subgroups_def sizes7_def parent7_def
      childOf_def newLayoutNode_def Let_def numeral_3_eq_3)

lemma subdivide_sample_centre:
  "map ln_x (fst (subdivideNodes (\<lambda>_. 1 / 2) 1 sizes7 [parent7] 0)) = [100, 100, 100]"
  by (simp add: subdivideNodes_Cons makeChildren_Suc subgroups_def sizes7_def parent7_def
      childOf_def newLayoutNode_def Let_def numeral_3_eq_3)

lemma hues_sample:
  "map (\<lambda>n. (clusterId n, hue n)) (assignHues (\<lambda>xs. xs) fiveSizes fiveNodes)
     = [(0, 0), (2, 72), (1, 144), (3, 216), (4, 288)]"
  "map (\<lambda>n. (clusterId n, hue n)) (assignHues rev fiveSizes fiveNodes)
     = [(0, 0), (4, 72), (1, 144), (3, 216), (2, 288)]"
  by (simp_all add: assignHues_def swapMiddle_def fiveSizes_def fiveNodes_def newLayoutNode_def
      jsRem_def Let_def)

theorem randomised_steps_follow_their_draws_witness:
  "length (fst (subdivideNodes (\<lambda>_. 0) 1 sizes7 [parent7] 0)) = 3
   \<and> subdivideNodes (\<lambda>_. 0) 1 sizes7 [parent7] 0
       = subdivideNodes (\<lambda>j. if j < 6 then 0 else 1 / 2) 1 sizes7 [parent7] 0
   \<and> snd (subdivideNodes (\<lambda>_. 0) 1 sizes7 [parent7] 0) = 6
   \<and> list_all (\<lambda>c. \<bar>ln_x c - ln_x parent7\<bar> \<le> 25 \<and> \<bar>ln_y c - ln_y parent7\<bar> \<le> 25)
        (fst (subdivideNodes (\<lambda>_. 0) 1 sizes7 [parent7] 0))
   \<and> map hue (assignHues rev sizes7 fiveNodes) = [0, 72, 144, 216, 288]"
proof -
  let ?r = "\<lambda>_::nat. 0::real"
  let ?r' = "\<lambda>j::nat. if j < 6 then 0 else 1 / 2 :: real"
  have len: "length (fst (subdivideNodes ?r 1 sizes7 [parent7] 0)) = 3"
    by (simp only: subdivide_sample fst_conv) simp
  have agree: "\<forall>j < 2 * length (fst (subdivideNodes ?r 1 sizes7 [parent7] 0)). ?r (0 + j) = ?r' (0 + j)"
    unfolding len by simp
  have unit: "\<forall>j. 0 \<le> ?r j \<and> ?r j < 1" by simp
  have perm: "\<forall>xs :: layoutNode list. mset (rev xs) = mset xs" by simp
  note T = randomised_steps_follow_their_draws [where rnd = ?r and rnd' = ?r' and t = 1
      and sz = sizes7 and ps = "[parent7]" and k = 0 and k' = 0 and shuffle = rev
      and ns = fiveNodes]
  have 1: "subdivideNodes ?r 1 sizes7 [parent7] 0 = subdivideNodes ?r' 1 sizes7 [parent7] 0"
    using T agree by blast
  have 2: "snd (subdivideNodes ?r 1 sizes7 [parent7] 0) = 6"
    by (simp only: subdivide_sample snd_conv)
  have "\<forall>c\<in>set (fst (subdivideNodes ?r 1 sizes7 [parent7] 0)).
           \<exists>p\<in>set [parent7]. \<bar>ln_x c - ln_x p\<bar> \<le> 25 \<and> \<bar>ln_y c - ln_y p\<bar> \<le> 25
                      \<and> hue c = hue p \<and> clusterId c = clusterId p \<and> tier c = 1"
    using T unit by blast
  then have 3: "list_all (\<lambda>c. \<bar>ln_x c - ln_x parent7\<bar> \<le> 25 \<and> \<bar>ln_y c - ln_y parent7\<bar> \<le> 25)
        (fst (subdivideNodes ?r 1 sizes7 [parent7] 0))"
    unfolding list_all_iff by simp
  have five: "length fiveNodes = 5" by (simp add: fiveNodes_def)
  have "map hue (assignHues rev sizes7 fiveNodes)
          = map (\<lambda>i. 360 * real i / real (length fiveNodes)) [0 ..< length fiveNodes]"
    using T perm by blast
  also have "\<dots> = [0, 72, 144, 216, 288]"
    unfolding five by code_simp
  finally have 4: "map hue (assignHues rev sizes7 fiveNodes) = [0, 72, 144, 216, 288]" .
  show ?thesis using len 1 2 3 4 by blast
qed

text \<open>
  C4 as stated fails. The same parent, tier and community sizes give children at
  \<open>x = 75\<close> when every draw is 0 and at \<open>x = 100\<close> when every draw is \<open>1/2\<close>; the same
  five communities receive different hues when the shuffle returns its argument unchanged
  and when it returns it reversed. No argument of either function is a seed.
\<close>

theorem same_inputs_different_draws_differ:
  "map ln_x (fst (subdivideNodes (\<lambda>_. 0) 1 sizes7 [parent7] 0)) = [75, 75, 75]
   \<and> map ln_x (fst (subdivideNodes (\<lambda>_. 1 / 2) 1 sizes7 [parent7] 0)) = [100, 100, 100]
   \<and> map (\<lambda>n. (clusterId n, hue n)) (assignHues (\<lambda>xs. xs) fiveSizes fiveNodes)
       = [(0, 0), (2, 72), (1, 144), (3, 216), (4, 288)]
   \<and> map (\<lambda>n. (clusterId n, hue n)) (assignHues rev fiveSizes fiveNodes)
       = [(0, 0), (4, 72), (1, 144), (3, 216), (2, 288)]"
proof -
  have "map ln_x (fst (subdivideNodes (\<lambda>_. 0) 1 sizes7 [parent7] 0)) = [75, 75, 75]"
    by (simp only: subdivide_sample fst_conv) simp
  then show ?thesis
    using subdivide_sample_centre hues_sample by blast
qed

end
